theory Spec2Isabelle
  imports Main "HOL-Library.Word" "HOL-Library.Multiset"
begin

section \<open>Names, events and messages\<close>

text \<open>
  Node and port names are opaque tokens; the routing core only compares them for
  equality, so they are natural numbers here.

  Sequence numbers are unsigned machine integers. \<^verbatim>\<open>node.cc\<close> declares them
  \<^verbatim>\<open>uint64_t\<close>, \<^verbatim>\<open>message_queue.cc\<close> and \<^verbatim>\<open>port.h\<close> declare them
  \<^verbatim>\<open>uint32_t\<close>; the width is therefore the type parameter \<open>'w\<close> of every record
  below, and all arithmetic on sequence numbers wraps around as the code's does.
\<close>

type_synonym NodeName = nat
type_synonym PortName = nat

datatype EventType =
  kUser | kPortAccepted | kObserveProxy | kObserveProxyAck | kObserveClosure
  | kUnrecognized

text \<open>The return codes of \<^verbatim>\<open>ports.h\<close>, as used by \<^verbatim>\<open>node.cc\<close>.\<close>

datatype rv =
  OK | ERROR_PORT_UNKNOWN | ERROR_PORT_EXISTS | ERROR_PORT_STATE_UNEXPECTED
  | ERROR_PORT_CANNOT_SEND_SELF | ERROR_PORT_PEER_CLOSED
  | ERROR_PORT_CANNOT_SEND_PEER | ERROR_NOT_IMPLEMENTED

text \<open>
  Modelled from the spec: the constant \<^verbatim>\<open>kInvalidSequenceNum\<close> is declared in
  a header that is not part of the sources at hand; the specification gives the
  sentinel for an invalid sequence number as 0.
\<close>

definition kInvalidSequenceNum :: "'w::len word" where
  "kInvalidSequenceNum = 0"

record (overloaded) 'w PortDescriptor =
  desc_peer_node_name :: NodeName
  desc_peer_port_name :: PortName
  desc_referring_node_name :: NodeName
  desc_referring_port_name :: PortName
  desc_next_sequence_num_to_send :: "'w word"
  desc_next_sequence_num_to_receive :: "'w word"

record ObserveProxyEventData =
  proxy_node_name :: NodeName
  proxy_port_name :: PortName
  proxy_to_node_name :: NodeName
  proxy_to_port_name :: PortName

text \<open>
  A message is a header (\<open>header_port_name\<close>, \<open>header_type\<close>), the event data
  that follows it, the payload bytes and the array of transferred port names. The
  port names and the port descriptors are two parallel arrays of the same length
  (\<^verbatim>\<open>AllocMessage\<close> sizes both by \<^verbatim>\<open>num_ports\<close>); \<open>msg_ports\<close> holds them
  as one list of pairs, entry \<open>i\<close> being \<^verbatim>\<open>ports()[i]\<close> and
  \<^verbatim>\<open>GetPortDescriptors(event)[i]\<close>. \<open>sequence_num\<close> is the field of
  \<^verbatim>\<open>UserEventData\<close>, \<open>observe_proxy\<close> the \<^verbatim>\<open>ObserveProxyEventData\<close> and
  \<open>last_sequence_num\<close> the field of \<^verbatim>\<open>ObserveProxyAckEventData\<close> and of
  \<^verbatim>\<open>ObserveClosureEventData\<close>.
\<close>

record (overloaded) 'w Message =
  header_port_name :: PortName
  header_type :: EventType
  sequence_num :: "'w word"
  msg_ports :: "(PortName \<times> 'w PortDescriptor) list"
  payload :: "nat list"
  observe_proxy :: ObserveProxyEventData
  last_sequence_num :: "'w word"

definition port_names :: "('w::len) Message \<Rightarrow> PortName list" where
  "port_names message = map fst (msg_ports message)"

definition empty_descriptor :: "('w::len) PortDescriptor" where
  "empty_descriptor =
     \<lparr>desc_peer_node_name = 0, desc_peer_port_name = 0,
      desc_referring_node_name = 0, desc_referring_port_name = 0,
      desc_next_sequence_num_to_send = 0, desc_next_sequence_num_to_receive = 0\<rparr>"

definition empty_proxy_data :: ObserveProxyEventData where
  "empty_proxy_data =
     \<lparr>proxy_node_name = 0, proxy_port_name = 0,
      proxy_to_node_name = 0, proxy_to_port_name = 0\<rparr>"

text \<open>
  \<^verbatim>\<open>NewInternalMessage(port_name, type, data)\<close>: a message with no payload and
  no ports whose header names the destination port and the event type.
\<close>

definition NewInternalMessage ::
  "PortName \<Rightarrow> EventType \<Rightarrow> ObserveProxyEventData \<Rightarrow> 'w word \<Rightarrow> ('w::len) Message" where
  "NewInternalMessage port_name type proxy_data last_num =
     \<lparr>header_port_name = port_name, header_type = type, sequence_num = 0,
      msg_ports = [], payload = [], observe_proxy = proxy_data,
      last_sequence_num = last_num\<rparr>"

section \<open>MessageQueue\<close>

text \<open>
  \<^verbatim>\<open>heap_\<close> is a vector kept as a heap by \<^verbatim>\<open>std::push_heap\<close> and
  \<^verbatim>\<open>std::pop_heap\<close> under an order that puts the smallest sequence number at
  \<^verbatim>\<open>heap_[0]\<close>. The standard library's sifting is not part of the program; the
  heap is the list of queued messages in ascending order of sequence number, so
  that \<^verbatim>\<open>heap_[0]\<close> is its head, \<open>push_heap\<close> inserts in order and
  \<open>pop_heap\<close> followed by \<open>pop_back\<close> drops the head.
\<close>

record (overloaded) 'w MessageQueue =
  heap :: "'w Message list"
  next_sequence_num :: "'w word"
  signalable :: bool

definition GetSequenceNum :: "('w::len) Message \<Rightarrow> 'w word" where
  "GetSequenceNum message = sequence_num message"

definition push_heap :: "('w::len) Message \<Rightarrow> 'w Message list \<Rightarrow> 'w Message list" where
  "push_heap message h = insort_key GetSequenceNum message h"

text \<open>
  Modelled from the spec: \<^verbatim>\<open>message_queue.h\<close> is not at hand. It declares the
  flag \<^verbatim>\<open>signalable_\<close>, which is set in a new queue and is cleared and set
  again through \<^verbatim>\<open>set_signalable\<close>.
\<close>

definition new_MessageQueue :: "'w word \<Rightarrow> ('w::len) MessageQueue" where
  "new_MessageQueue n = \<lparr>heap = [], next_sequence_num = n, signalable = True\<rparr>"

definition set_signalable :: "bool \<Rightarrow> ('w::len) MessageQueue \<Rightarrow> 'w MessageQueue" where
  "set_signalable b q = q\<lparr>signalable := b\<rparr>"

text \<open>
  \<^verbatim>\<open>MessageQueue::GetNextMessageIf(selector, message)\<close>: the result is the
  message handed out (\<open>None\<close> for a reset pointer) and the queue afterwards. A
  null selector is \<open>None\<close>.
\<close>

definition GetNextMessageIf ::
  "(('w::len) Message \<Rightarrow> bool) option \<Rightarrow> 'w MessageQueue
     \<Rightarrow> 'w Message option \<times> 'w MessageQueue" where
  "GetNextMessageIf selector q =
     (case heap q of
        [] \<Rightarrow> (None, q)
      | m0 # rest \<Rightarrow>
          if GetSequenceNum m0 \<noteq> next_sequence_num q then (None, q)
          else if (case selector of None \<Rightarrow> False | Some select \<Rightarrow> \<not> select m0)
          then (None, q)
          else (Some m0,
                q\<lparr>heap := rest, next_sequence_num := next_sequence_num q + 1\<rparr>))"

text \<open>
  \<^verbatim>\<open>MessageQueue::AcceptMessage(message, has_next_message)\<close>: the queue
  afterwards and the flag written to \<^verbatim>\<open>*has_next_message\<close>.
\<close>

definition AcceptMessage_queue ::
  "('w::len) Message \<Rightarrow> 'w MessageQueue \<Rightarrow> 'w MessageQueue \<times> bool" where
  "AcceptMessage_queue message q =
     (let q' = q\<lparr>heap := push_heap message (heap q)\<rparr>
      in (q',
          if \<not> signalable q' then False
          else (case heap q' of [] \<Rightarrow> False
                | m0 # _ \<Rightarrow> GetSequenceNum m0 = next_sequence_num q')))"

section \<open>Port and Node\<close>

datatype State = kUninitialized | kReceiving | kBuffering | kProxying | kClosed

text \<open>
  The fields of \<^verbatim>\<open>Port\<close> that \<^verbatim>\<open>node.cc\<close> reads and writes; the state
  \<^verbatim>\<open>kUninitialized\<close> and the two \<^verbatim>\<open>outgoing\<close> containers are those
  \<^verbatim>\<open>node.cc\<close> uses (the \<^verbatim>\<open>port.h\<close> at hand is of an earlier revision and
  does not have them yet). \<open>locked\<close> is the state of the port's mutex
  \<^verbatim>\<open>lock\<close>. \<open>outgoing_ports\<close> holds shared pointers, which are addresses
  of the store below. The opaque \<^verbatim>\<open>user_data\<close> handle plays no part in
  routing and is left out.
\<close>

record (overloaded) 'w Port =
  locked :: bool
  state :: State
  peer_node_name :: NodeName
  peer_port_name :: PortName
  next_sequence_num_to_send :: "'w word"
  last_sequence_num_to_receive :: "'w word"
  message_queue :: "'w MessageQueue"
  send_on_proxy_removal :: "(NodeName \<times> 'w Message) option"
  remove_proxy_on_last_message :: bool
  peer_closed :: bool
  outgoing_messages :: "'w Message list"
  outgoing_ports :: "nat list"

text \<open>
  The constructor of \<^verbatim>\<open>port.cc\<close>; the two containers start empty and the
  mutex free.
\<close>

definition new_Port :: "'w word \<Rightarrow> 'w word \<Rightarrow> ('w::len) Port" where
  "new_Port next_to_send next_to_receive =
     \<lparr>locked = False, state = kReceiving, peer_node_name = 0, peer_port_name = 0,
      next_sequence_num_to_send = next_to_send,
      last_sequence_num_to_receive = 0,
      message_queue = new_MessageQueue next_to_receive,
      send_on_proxy_removal = None,
      remove_proxy_on_last_message = False, peer_closed = False,
      outgoing_messages = [], outgoing_ports = []\<rparr>"

text \<open>
  A \<^verbatim>\<open>PortRef\<close> is a port name together with a shared pointer to the port
  object.
\<close>

record PortRef =
  ref_name :: PortName
  ref_port :: nat

text \<open>
  Port objects are shared: the node's map \<^verbatim>\<open>ports_\<close> and every
  \<^verbatim>\<open>PortRef\<close> point to the same object, and an object erased from the map
  lives on for those who still hold it. \<open>store\<close> maps addresses to port objects,
  \<open>next_addr\<close> is the next address \<^verbatim>\<open>std::make_shared\<close> hands out, and
  \<open>node_ports\<close> is the map \<^verbatim>\<open>ports_\<close> from names to addresses. Objects are
  never taken out of the store.

  The delegate is external. \<open>forwarded\<close> records the calls of
  \<^verbatim>\<open>ForwardMessage\<close> in order, \<open>status_changed\<close> those of
  \<^verbatim>\<open>PortStatusChanged\<close>; \<^verbatim>\<open>GenerateRandomPortName\<close> returns
  \<open>name_source\<close> at the number of names generated so far.

  The node's own mutexes (\<^verbatim>\<open>ports_lock_\<close>, \<^verbatim>\<open>send_with_ports_lock_\<close>,
  \<^verbatim>\<open>local_message_lock_\<close>) are only ever held through a
  \<^verbatim>\<open>std::lock_guard\<close>, which releases on every way out of its scope; calls
  run one after another here, so these guards have no effect and are not
  represented. A port's own mutex is the field \<open>locked\<close>.
\<close>

record (overloaded) 'w Node =
  node_name :: NodeName
  node_ports :: "PortName \<rightharpoonup> nat"
  store :: "nat \<rightharpoonup> 'w Port"
  next_addr :: nat
  local_messages :: "'w Message list"
  is_delivering_local_messages :: bool
  forwarded :: "(NodeName \<times> 'w Message) list"
  status_changed :: "PortRef list"
  name_source :: "nat \<Rightarrow> PortName"
  names_generated :: nat

text \<open>
  What a call can do besides returning: dereference a null pointer, or lock a
  mutex that is already held, which never returns.
\<close>

datatype fault = NullDeref | Deadlock

definition update_port ::
  "nat \<Rightarrow> (('w::len) Port \<Rightarrow> 'w Port) \<Rightarrow> 'w Node \<Rightarrow> 'w Node" where
  "update_port a f n =
     (case store n a of None \<Rightarrow> n
      | Some port \<Rightarrow> n\<lparr>store := (store n)(a \<mapsto> f port)\<rparr>)"

definition make_shared :: "('w::len) Port \<Rightarrow> 'w Node \<Rightarrow> nat \<times> 'w Node" where
  "make_shared port n =
     (next_addr n,
      n\<lparr>store := (store n)(next_addr n \<mapsto> port), next_addr := next_addr n + 1\<rparr>)"

definition ForwardMessage ::
  "NodeName \<Rightarrow> ('w::len) Message \<Rightarrow> 'w Node \<Rightarrow> 'w Node" where
  "ForwardMessage to_node message n =
     n\<lparr>forwarded := forwarded n @ [(to_node, message)]\<rparr>"

definition PortStatusChanged :: "PortRef \<Rightarrow> ('w::len) Node \<Rightarrow> 'w Node" where
  "PortStatusChanged port_ref n =
     n\<lparr>status_changed := status_changed n @ [port_ref]\<rparr>"

definition GenerateRandomPortName :: "('w::len) Node \<Rightarrow> PortName \<times> 'w Node" where
  "GenerateRandomPortName n =
     (name_source n (names_generated n),
      n\<lparr>names_generated := names_generated n + 1\<rparr>)"

text \<open>
  \<^verbatim>\<open>OOPS(x)\<close> reports through the logging macro \<^verbatim>\<open>CHECK\<close> of a library
  outside this program and then returns \<open>x\<close>; the return value is what is
  modelled.
\<close>

definition OOPS :: "rv \<Rightarrow> rv" where
  "OOPS x = x"

definition CanAcceptMoreMessages :: "('w::len) Port \<Rightarrow> bool" where
  "CanAcceptMoreMessages port =
     (let next_num = next_sequence_num (message_queue port)
      in if peer_closed port \<or> remove_proxy_on_last_message port
         then (if last_sequence_num_to_receive port = next_num - 1 then False
               else True)
         else True)"

definition GetPort :: "('w::len) Node \<Rightarrow> PortName \<Rightarrow> nat option" where
  "GetPort n port_name = node_ports n port_name"

definition GetPort_ref :: "('w::len) Node \<Rightarrow> PortName \<Rightarrow> rv \<times> PortRef option" where
  "GetPort_ref n port_name =
     (case GetPort n port_name of
        None \<Rightarrow> (ERROR_PORT_UNKNOWN, None)
      | Some a \<Rightarrow> (OK, Some \<lparr>ref_name = port_name, ref_port = a\<rparr>))"

definition AddPortWithName ::
  "PortName \<Rightarrow> nat \<Rightarrow> ('w::len) Node \<Rightarrow> rv \<times> 'w Node" where
  "AddPortWithName port_name a n =
     (case node_ports n port_name of
        Some _ \<Rightarrow> (OOPS ERROR_PORT_EXISTS, n)
      | None \<Rightarrow> (OK, n\<lparr>node_ports := (node_ports n)(port_name \<mapsto> a)\<rparr>))"

definition ErasePort :: "PortName \<Rightarrow> ('w::len) Node \<Rightarrow> 'w Node" where
  "ErasePort port_name n = n\<lparr>node_ports := (node_ports n)(port_name := None)\<rparr>"

text \<open>
  \<^verbatim>\<open>std::lock_guard<std::mutex> guard(port->lock)\<close>: dereferences the port
  and takes its mutex. A mutex that is already held never comes free while one
  call runs, so the guard does not return. The guard's own hold ends with its
  scope and is not written to the store; within the scope, the only code that
  could meet it is the locking loop of \<^verbatim>\<open>WillSendMessage_Locked\<close>, which
  tests for the sending port itself.
\<close>

definition lock_guard :: "('w::len) Node \<Rightarrow> nat \<Rightarrow> fault + 'w Port" where
  "lock_guard n a =
     (case store n a of
        None \<Rightarrow> Inl NullDeref
      | Some port \<Rightarrow> if locked port then Inl Deadlock else Inr port)"

subsection \<open>ClosePort\<close>

definition ClosePort :: "('w::len) Node \<Rightarrow> PortRef \<Rightarrow> fault + rv \<times> 'w Node" where
  "ClosePort n port_ref =
     (case lock_guard n (ref_port port_ref) of
        Inl f \<Rightarrow> Inl f
      | Inr port \<Rightarrow>
          if state port \<noteq> kReceiving then Inr (ERROR_PORT_STATE_UNEXPECTED, n)
          else
            let n1 = update_port (ref_port port_ref) (\<lambda>p. p\<lparr>state := kClosed\<rparr>) n;
                data_last = next_sequence_num_to_send port - 1;
                n2 = ForwardMessage (peer_node_name port)
                       (NewInternalMessage (peer_port_name port) kObserveClosure
                          empty_proxy_data data_last) n1
            in Inr (OK, ErasePort (ref_name port_ref) n2))"

subsection \<open>Proxy removal\<close>

definition InitiateProxyRemoval_Locked ::
  "('w::len) Node \<Rightarrow> nat \<Rightarrow> PortName \<Rightarrow> fault + 'w Node" where
  "InitiateProxyRemoval_Locked n a port_name =
     (case store n a of
        None \<Rightarrow> Inl NullDeref
      | Some port \<Rightarrow>
          let data = \<lparr>proxy_node_name = node_name n, proxy_port_name = port_name,
                      proxy_to_node_name = peer_node_name port,
                      proxy_to_port_name = peer_port_name port\<rparr>
          in Inr (ForwardMessage (peer_node_name port)
                    (NewInternalMessage (peer_port_name port) kObserveProxy data 0) n))"

text \<open>
  After the deferred message has been moved out and forwarded, the port object
  is no longer in the map; its \<open>send_on_proxy_removal\<close> is left as it was.
\<close>

definition MaybeRemoveProxy_Locked ::
  "('w::len) Node \<Rightarrow> nat \<Rightarrow> PortName \<Rightarrow> fault + 'w Node" where
  "MaybeRemoveProxy_Locked n a port_name =
     (case store n a of
        None \<Rightarrow> Inl NullDeref
      | Some port \<Rightarrow>
          if \<not> remove_proxy_on_last_message port then Inr n
          else if \<not> CanAcceptMoreMessages port then
            (let n1 = ErasePort port_name n
             in case send_on_proxy_removal port of
                  None \<Rightarrow> Inr n1
                | Some (to_node, message) \<Rightarrow> Inr (ForwardMessage to_node message n1))
          else Inr n)"

subsection \<open>ObserveProxy, ObserveProxyAck, ObserveClosure\<close>

definition OnObserveProxy ::
  "('w::len) Node \<Rightarrow> PortName \<Rightarrow> ObserveProxyEventData \<Rightarrow> fault + rv \<times> 'w Node" where
  "OnObserveProxy n port_name event =
     (case GetPort n port_name of
        None \<Rightarrow> Inr (OK, n)
      | Some a \<Rightarrow>
         (case lock_guard n a of
            Inl f \<Rightarrow> Inl f
          | Inr port \<Rightarrow>
              if peer_node_name port = proxy_node_name event \<and>
                 peer_port_name port = proxy_port_name event
              then
                if state port = kReceiving then
                  let n1 = update_port a
                             (\<lambda>p. p\<lparr>peer_node_name := proxy_to_node_name event,
                                    peer_port_name := proxy_to_port_name event\<rparr>) n;
                      ack = next_sequence_num_to_send port - 1
                  in Inr (OK, ForwardMessage (proxy_node_name event)
                                (NewInternalMessage (proxy_port_name event)
                                   kObserveProxyAck empty_proxy_data ack) n1)
                else
                  Inr (OK, update_port a
                             (\<lambda>p. p\<lparr>send_on_proxy_removal :=
                                      Some (proxy_node_name event,
                                            NewInternalMessage (proxy_port_name event)
                                              kObserveProxyAck empty_proxy_data
                                              kInvalidSequenceNum)\<rparr>) n)
              else
                Inr (OK, ForwardMessage (peer_node_name port)
                           (NewInternalMessage (peer_port_name port)
                              kObserveProxy event 0) n)))"

definition OnObserveProxyAck ::
  "('w::len) Node \<Rightarrow> PortName \<Rightarrow> 'w word \<Rightarrow> fault + rv \<times> 'w Node" where
  "OnObserveProxyAck n port_name last_num =
     (case GetPort n port_name of
        None \<Rightarrow> Inr (ERROR_PORT_UNKNOWN, n)
      | Some a \<Rightarrow>
         (case lock_guard n a of
            Inl f \<Rightarrow> Inl f
          | Inr port \<Rightarrow>
              if state port \<noteq> kProxying then Inr (OOPS ERROR_PORT_STATE_UNEXPECTED, n)
              else if last_num = kInvalidSequenceNum then
                (case InitiateProxyRemoval_Locked n a port_name of
                   Inl f \<Rightarrow> Inl f
                 | Inr n1 \<Rightarrow> Inr (OK, n1))
              else
                (let n1 = update_port a
                            (\<lambda>p. p\<lparr>remove_proxy_on_last_message := True,
                                   last_sequence_num_to_receive := last_num\<rparr>) n
                 in case MaybeRemoveProxy_Locked n1 a port_name of
                      Inl f \<Rightarrow> Inl f
                    | Inr n2 \<Rightarrow> Inr (OK, n2))))"

definition OnObserveClosure ::
  "('w::len) Node \<Rightarrow> PortName \<Rightarrow> 'w word \<Rightarrow> fault + rv \<times> 'w Node" where
  "OnObserveClosure n port_name last_num =
     (case GetPort n port_name of
        None \<Rightarrow> Inr (OK, n)
      | Some a \<Rightarrow>
         (case lock_guard n a of
            Inl f \<Rightarrow> Inl f
          | Inr port \<Rightarrow>
              let n1 = update_port a
                         (\<lambda>p. p\<lparr>peer_closed := True,
                                last_sequence_num_to_receive := last_num\<rparr>) n
              in if state port = kReceiving then
                   Inr (OK, PortStatusChanged
                              \<lparr>ref_name = port_name, ref_port = a\<rparr> n1)
                 else
                   let next_node_name = peer_node_name port;
                       next_port_name = peer_port_name port;
                       n2 = update_port a
                              (\<lambda>p. p\<lparr>remove_proxy_on_last_message := True\<rparr>) n1
                   in if state port = kProxying then
                        (case MaybeRemoveProxy_Locked n2 a port_name of
                           Inl f \<Rightarrow> Inl f
                         | Inr n3 \<Rightarrow>
                             Inr (OK, ForwardMessage next_node_name
                                        (NewInternalMessage next_port_name
                                           kObserveClosure empty_proxy_data last_num)
                                        n3))
                      else Inr (OK, n2)))"

subsection \<open>Transferring ports\<close>

definition AcceptPort ::
  "('w::len) Node \<Rightarrow> PortName \<Rightarrow> 'w PortDescriptor \<Rightarrow> rv \<times> 'w Node" where
  "AcceptPort n port_name port_descriptor =
     (let port = (new_Port (desc_next_sequence_num_to_send port_descriptor)
                    (desc_next_sequence_num_to_receive port_descriptor))
                 \<lparr>state := kReceiving,
                  peer_node_name := desc_peer_node_name port_descriptor,
                  peer_port_name := desc_peer_port_name port_descriptor\<rparr>;
          port1 = port\<lparr>message_queue := set_signalable False (message_queue port)\<rparr>;
          (a, n1) = make_shared port1 n;
          (r, n2) = AddPortWithName port_name a n1
      in if r \<noteq> OK then (r, n2)
         else (OK, ForwardMessage (desc_referring_node_name port_descriptor)
                     (NewInternalMessage (desc_referring_port_name port_descriptor)
                        kPortAccepted empty_proxy_data 0) n2))"

text \<open>
  \<^verbatim>\<open>WillSendPort_Locked(port, to_node_name, port_name, port_descriptor)\<close>:
  the result is the new name written to \<^verbatim>\<open>*port_name\<close>, the descriptor
  written to \<^verbatim>\<open>*port_descriptor\<close> and the node afterwards.
\<close>

definition WillSendPort_Locked ::
  "('w::len) Node \<Rightarrow> nat \<Rightarrow> NodeName \<Rightarrow> PortName
     \<Rightarrow> fault + PortName \<times> 'w PortDescriptor \<times> 'w Node" where
  "WillSendPort_Locked n b to_node_name port_name =
     (case store n b of
        None \<Rightarrow> Inl NullDeref
      | Some port \<Rightarrow>
          let local_port_name = port_name;
              (new_port_name, n1) = GenerateRandomPortName n;
              descriptor =
                \<lparr>desc_peer_node_name = peer_node_name port,
                 desc_peer_port_name = peer_port_name port,
                 desc_referring_node_name = node_name n,
                 desc_referring_port_name = local_port_name,
                 desc_next_sequence_num_to_send = next_sequence_num_to_send port,
                 desc_next_sequence_num_to_receive =
                   next_sequence_num (message_queue port)\<rparr>;
              n2 = update_port b
                     (\<lambda>p. p\<lparr>state := kBuffering, peer_node_name := to_node_name,
                            peer_port_name := new_port_name\<rparr>) n1
          in Inr (new_port_name, descriptor, n2))"

text \<open>
  The first loop of \<^verbatim>\<open>WillSendMessage_Locked\<close>, over the names still to
  visit; \<open>ports\<close> is the vector filled so far. The sending port \<open>a\<close> is locked
  by the caller, so \<^verbatim>\<open>lock()\<close> on it does not return, as on any port whose
  mutex is held. On an error the code unlocks \<^verbatim>\<open>ports[i]\<close>, the port it has
  just locked, \<open>i + 1\<close> times (the loop variable \<open>j\<close> is not used), and
  decrements the sender's counter; unlocking a free mutex leaves it free.
\<close>

fun lock_ports ::
  "nat \<Rightarrow> PortName list \<Rightarrow> nat list \<Rightarrow> ('w::len) Node
     \<Rightarrow> fault + rv \<times> nat list \<times> 'w Node" where
  "lock_ports a [] ports n = Inr (OK, ports, n)"
| "lock_ports a (name # names) ports n =
     (case store n a of
        None \<Rightarrow> Inl NullDeref
      | Some port \<Rightarrow>
         (case GetPort n name of
            None \<Rightarrow> Inl NullDeref
          | Some b \<Rightarrow>
             (case store n b of
                None \<Rightarrow> Inl NullDeref
              | Some p \<Rightarrow>
                  if b = a \<or> locked p then Inl Deadlock
                  else
                    let n1 = update_port b (\<lambda>q. q\<lparr>locked := True\<rparr>) n;
                        error =
                          (if state p \<noteq> kReceiving then ERROR_PORT_STATE_UNEXPECTED
                           else if name = peer_port_name port
                           then ERROR_PORT_CANNOT_SEND_PEER
                           else OK)
                    in if error \<noteq> OK then
                         let n2 = update_port b (\<lambda>q. q\<lparr>locked := False\<rparr>) n1;
                             n3 = update_port a
                                    (\<lambda>q. q\<lparr>next_sequence_num_to_send :=
                                             next_sequence_num_to_send q - 1\<rparr>) n2
                         in Inr (error, ports @ [b], n3)
                       else lock_ports a names (ports @ [b]) n1)))"

text \<open>
  The second loop: \<^verbatim>\<open>WillSendPort_Locked\<close> on each locked port, rewriting
  entry \<open>i\<close> of the message's port names and descriptors.
\<close>

fun send_ports ::
  "nat \<Rightarrow> nat list \<Rightarrow> (PortName \<times> ('w::len) PortDescriptor) list \<Rightarrow> 'w Node
     \<Rightarrow> fault + (PortName \<times> 'w PortDescriptor) list \<times> 'w Node" where
  "send_ports a (b # bs) ((name, d) # es) n =
     (case store n a of
        None \<Rightarrow> Inl NullDeref
      | Some port \<Rightarrow>
         (case WillSendPort_Locked n b (peer_node_name port) name of
            Inl f \<Rightarrow> Inl f
          | Inr (new_name, descriptor, n1) \<Rightarrow>
             (case send_ports a bs es n1 of
                Inl f \<Rightarrow> Inl f
              | Inr (es', n2) \<Rightarrow> Inr ((new_name, descriptor) # es', n2))))"
| "send_ports a _ _ n = Inr ([], n)"

definition unlock_ports :: "nat list \<Rightarrow> ('w::len) Node \<Rightarrow> 'w Node" where
  "unlock_ports ports n = fold (\<lambda>b. update_port b (\<lambda>q. q\<lparr>locked := False\<rparr>)) ports n"

text \<open>
  \<^verbatim>\<open>WillSendMessage_Locked(port, port_name, message, ports_taken)\<close>: the
  result is the return code, the message as the call leaves it, the ports
  taken and the node afterwards.
\<close>

definition WillSendMessage_Locked ::
  "('w::len) Node \<Rightarrow> nat \<Rightarrow> PortName \<Rightarrow> 'w Message
     \<Rightarrow> fault + rv \<times> 'w Message \<times> nat list \<times> 'w Node" where
  "WillSendMessage_Locked n a port_name message =
     (case store n a of
        None \<Rightarrow> Inl NullDeref
      | Some port \<Rightarrow>
          let (message1, n1) =
                (if sequence_num message = 0 then
                   (message\<lparr>sequence_num := next_sequence_num_to_send port\<rparr>,
                    update_port a
                      (\<lambda>p. p\<lparr>next_sequence_num_to_send :=
                               next_sequence_num_to_send p + 1\<rparr>) n)
                 else (message, n))
          in if msg_ports message1 \<noteq> [] then
               (case lock_ports a (port_names message1) [] n1 of
                  Inl f \<Rightarrow> Inl f
                | Inr (error, ports, n2) \<Rightarrow>
                    if error \<noteq> OK then Inr (error, message1, ports, n2)
                    else
                      (case send_ports a ports (msg_ports message1) n2 of
                         Inl f \<Rightarrow> Inl f
                       | Inr (entries, n3) \<Rightarrow>
                          (let n4 = unlock_ports ports n3
                           in case store n4 a of
                                None \<Rightarrow> Inl NullDeref
                              | Some port4 \<Rightarrow>
                                  Inr (OK,
                                       message1\<lparr>msg_ports := entries,
                                                header_port_name := peer_port_name port4\<rparr>,
                                       ports, n4))))
             else
               (case store n1 a of
                  None \<Rightarrow> Inl NullDeref
                | Some port1 \<Rightarrow>
                    Inr (OK, message1\<lparr>header_port_name := peer_port_name port1\<rparr>,
                         [], n1)))"

subsection \<open>What sending leaves alone\<close>

text \<open>
  The loops of \<^verbatim>\<open>WillSendMessage_Locked\<close> touch the embedded ports; of the
  sending port they change the send counter only. The forwarding loop below
  terminates for that reason: its queue shrinks with every message taken.
\<close>

lemma store_update_port:
  "store (update_port b f n) a = (if a = b then map_option f (store n a) else store n a)"
  by (simp add: update_port_def split: option.splits)

lemma update_port_fields:
  "node_ports (update_port b f n) = node_ports n"
  "node_name (update_port b f n) = node_name n"
  "next_addr (update_port b f n) = next_addr n"
  "local_messages (update_port b f n) = local_messages n"
  "is_delivering_local_messages (update_port b f n) = is_delivering_local_messages n"
  "forwarded (update_port b f n) = forwarded n"
  "status_changed (update_port b f n) = status_changed n"
  "name_source (update_port b f n) = name_source n"
  "names_generated (update_port b f n) = names_generated n"
  by (simp_all add: update_port_def split: option.splits)

lemma lock_ports_sender:
  "lock_ports a names ps n = Inr (r, ps', n') \<Longrightarrow> store n a = Some p \<Longrightarrow>
   store n' a =
     Some (if r = OK then p
           else p\<lparr>next_sequence_num_to_send := next_sequence_num_to_send p - 1\<rparr>)"
proof (induction names arbitrary: ps n)
  case Nil
  then show ?case by simp
next
  case (Cons name names)
  then show ?case
    by (auto simp: store_update_port Let_def split: option.splits if_splits)
qed

lemma lock_ports_avoid:
  "lock_ports a names ps n = Inr (r, ps', n') \<Longrightarrow> a \<notin> set ps \<Longrightarrow> a \<notin> set ps'"
proof (induction names arbitrary: ps n)
  case Nil
  then show ?case by simp
next
  case (Cons name names)
  then show ?case
    by (fastforce simp: Let_def split: option.splits if_splits)
qed

lemma WillSendPort_Locked_other:
  "WillSendPort_Locked n b to_node name = Inr (new_name, d, n') \<Longrightarrow> a \<noteq> b \<Longrightarrow>
   store n' a = store n a"
  by (auto simp: WillSendPort_Locked_def GenerateRandomPortName_def store_update_port Let_def
      split: option.splits)

lemma send_ports_other:
  "send_ports a bs es n = Inr (es', n') \<Longrightarrow> a \<notin> set bs \<Longrightarrow> store n' a = store n a"
proof (induction bs arbitrary: es n es' n')
  case Nil
  then show ?case by simp
next
  case (Cons b bs)
  show ?case
  proof (cases es)
    case Nil
    with Cons.prems show ?thesis by simp
  next
    case (Cons e es0)
    obtain name d where e: "e = (name, d)" by (cases e)
    from Cons.prems(1) obtain port where port: "store n a = Some port"
      by (auto simp: Cons e split: option.splits)
    from Cons.prems(1) port obtain new_name descriptor n1 es1 where
      w: "WillSendPort_Locked n b (peer_node_name port) name = Inr (new_name, descriptor, n1)"
      and r: "send_ports a bs es0 n1 = Inr (es1, n')"
      by (auto simp: Cons e split: sum.splits)
    from Cons.prems(2) have "a \<noteq> b" "a \<notin> set bs" by auto
    with Cons.IH [OF r] WillSendPort_Locked_other [OF w] show ?thesis by simp
  qed
qed

lemma unlock_ports_other:
  "a \<notin> set ps \<Longrightarrow> store (unlock_ports ps n) a = store n a"
  unfolding unlock_ports_def
  by (induction ps arbitrary: n) (simp_all add: store_update_port)

lemma WillSendMessage_Locked_sender:
  assumes "WillSendMessage_Locked n a port_name message = Inr (r, message', ps, n')"
    and "store n a = Some p"
  shows "store n' a =
     Some (p\<lparr>next_sequence_num_to_send :=
               (if r = OK then
                  (if sequence_num message = 0 then next_sequence_num_to_send p + 1
                   else next_sequence_num_to_send p)
                else
                  (if sequence_num message = 0 then next_sequence_num_to_send p
                   else next_sequence_num_to_send p - 1))\<rparr>)"
proof (cases "msg_ports message = []")
  case True
  with assms show ?thesis
    by (auto simp: WillSendMessage_Locked_def store_update_port Let_def
        split: option.splits if_splits)
next
  case False
  define message1 where "message1 = (if sequence_num message = 0
      then message\<lparr>sequence_num := next_sequence_num_to_send p\<rparr> else message)"
  define p1 where "p1 = (if sequence_num message = 0
      then p\<lparr>next_sequence_num_to_send := next_sequence_num_to_send p + 1\<rparr> else p)"
  define n1 where "n1 = (if sequence_num message = 0
      then update_port a (\<lambda>p. p\<lparr>next_sequence_num_to_send := next_sequence_num_to_send p + 1\<rparr>) n
      else n)"
  have s1: "store n1 a = Some p1"
    using assms(2) by (simp add: n1_def p1_def store_update_port)
  have m1: "msg_ports message1 \<noteq> []"
    using False by (simp add: message1_def)
  from assms obtain error ports n2 where
    l: "lock_ports a (port_names message1) [] n1 = Inr (error, ports, n2)"
    using False
    by (auto simp: WillSendMessage_Locked_def message1_def n1_def split: sum.splits if_splits)
  have s2: "store n2 a = Some (if error = OK then p1
      else p1\<lparr>next_sequence_num_to_send := next_sequence_num_to_send p1 - 1\<rparr>)"
    by (rule lock_ports_sender [OF l s1])
  have av: "a \<notin> set ports"
    using lock_ports_avoid [OF l] by simp
  show ?thesis
  proof (cases "error = OK")
    case True
    with assms l False obtain entries n3 where
      sp: "send_ports a ports (msg_ports message1) n2 = Inr (entries, n3)"
      and n': "n' = unlock_ports ports n3" and r: "r = OK"
      by (auto simp: WillSendMessage_Locked_def message1_def n1_def Let_def
          split: sum.splits if_splits option.splits)
    have "store n' a = store n2 a"
      using send_ports_other [OF sp av] unlock_ports_other [OF av, of n3] n' by simp
    with s2 True r show ?thesis by (simp add: p1_def)
  next
    case False
    with assms l \<open>msg_ports message \<noteq> []\<close> have "n' = n2" "r = error"
      by (auto simp: WillSendMessage_Locked_def message1_def n1_def Let_def
          split: sum.splits if_splits option.splits)
    with s2 False show ?thesis by (simp add: p1_def)
  qed
qed


lemma GetNextMessageIf_Some:
  "GetNextMessageIf selector q = (Some message, q') \<Longrightarrow>
   heap q = message # heap q' \<and> GetSequenceNum message = next_sequence_num q \<and>
   next_sequence_num q' = next_sequence_num q + 1 \<and> signalable q' = signalable q"
  by (auto simp: GetNextMessageIf_def split: list.splits if_splits)

subsection \<open>Forwarding\<close>

function ForwardMessages_Locked ::
  "('w::len) Node \<Rightarrow> nat \<Rightarrow> PortName \<Rightarrow> fault + rv \<times> 'w Node" where
  "ForwardMessages_Locked n a port_name =
     (case store n a of
        None \<Rightarrow> Inl NullDeref
      | Some port \<Rightarrow>
         (case GetNextMessageIf None (message_queue port) of
            (None, q) \<Rightarrow> Inr (OK, n)
          | (Some message, q) \<Rightarrow>
             (case WillSendMessage_Locked
                     (update_port a (\<lambda>p. p\<lparr>message_queue := q\<rparr>) n) a port_name message of
                Inl f \<Rightarrow> Inl f
              | Inr (r, message', ports, n2) \<Rightarrow>
                  if r \<noteq> OK then Inr (r, n2)
                  else
                    (case store n2 a of
                       None \<Rightarrow> Inl NullDeref
                     | Some port2 \<Rightarrow>
                         ForwardMessages_Locked
                           (ForwardMessage (peer_node_name port2) message' n2)
                           a port_name))))"
  by pat_completeness auto
termination
  apply (relation "measure (\<lambda>(n, a, port_name).
          case store n a of None \<Rightarrow> 0
          | Some port \<Rightarrow> length (heap (message_queue port)))")
   apply simp
  subgoal premises prems for n a port_name port x q message b r y message' z ports n2 port2
  proof -
    have w: "WillSendMessage_Locked (update_port a (\<lambda>p. p\<lparr>message_queue := q\<rparr>) n)
                a port_name message = Inr (r, message', ports, n2)"
      using prems by simp
    have "store (update_port a (\<lambda>p. p\<lparr>message_queue := q\<rparr>) n) a
            = Some (port\<lparr>message_queue := q\<rparr>)"
      using prems(1) by (simp add: store_update_port)
    from WillSendMessage_Locked_sender [OF w this] prems
    have "message_queue port2 = q" by auto
    moreover have "heap (message_queue port) = message # heap q"
      using prems GetNextMessageIf_Some [of None "message_queue port" message q] by simp
    ultimately show ?thesis
      using prems by (simp add: ForwardMessage_def)
  qed
  done

subsection \<open>PortAccepted\<close>

definition OnPortAccepted ::
  "('w::len) Node \<Rightarrow> PortName \<Rightarrow> fault + rv \<times> 'w Node" where
  "OnPortAccepted n port_name =
     (case GetPort n port_name of
        None \<Rightarrow> Inr (OOPS ERROR_PORT_UNKNOWN, n)
      | Some a \<Rightarrow>
         (case lock_guard n a of
            Inl f \<Rightarrow> Inl f
          | Inr port \<Rightarrow>
              if state port \<noteq> kBuffering then Inr (OOPS ERROR_PORT_STATE_UNEXPECTED, n)
              else
                (case ForwardMessages_Locked
                        (update_port a (\<lambda>p. p\<lparr>state := kProxying\<rparr>) n) a port_name of
                   Inl f \<Rightarrow> Inl f
                 | Inr (r, n2) \<Rightarrow>
                     if r \<noteq> OK then Inr (r, n2)
                     else
                       (case store n2 a of
                          None \<Rightarrow> Inl NullDeref
                        | Some port2 \<Rightarrow>
                            if remove_proxy_on_last_message port2 then
                              (case MaybeRemoveProxy_Locked n2 a port_name of
                                 Inl f \<Rightarrow> Inl f
                               | Inr n3 \<Rightarrow> Inr (OK, n3))
                            else
                              (case InitiateProxyRemoval_Locked n2 a port_name of
                                 Inl f \<Rightarrow> Inl f
                               | Inr n3 \<Rightarrow> Inr (OK, n3))))))"

subsection \<open>User messages\<close>

text \<open>The loop of \<^verbatim>\<open>OnUserMessage\<close> that binds the embedded ports.\<close>

fun accept_ports ::
  "(PortName \<times> ('w::len) PortDescriptor) list \<Rightarrow> 'w Node \<Rightarrow> rv \<times> 'w Node" where
  "accept_ports [] n = (OK, n)"
| "accept_ports ((name, d) # es) n =
     (case AcceptPort n name d of
        (r, n1) \<Rightarrow> if r \<noteq> OK then (r, n1) else accept_ports es n1)"

text \<open>
  The loop that closes the newly accepted ports of a message that was not
  accepted; the return value of \<^verbatim>\<open>ClosePort\<close> is not looked at.
\<close>

fun close_ports :: "PortName list \<Rightarrow> ('w::len) Node \<Rightarrow> fault + 'w Node" where
  "close_ports [] n = Inr n"
| "close_ports (name # names) n =
     (case GetPort_ref n name of
        (r, Some port_ref) \<Rightarrow>
          if r = OK then
            (case ClosePort n port_ref of
               Inl f \<Rightarrow> Inl f
             | Inr (_, n1) \<Rightarrow> close_ports names n1)
          else close_ports names n
      | (r, None) \<Rightarrow> close_ports names n)"

definition OnUserMessage ::
  "('w::len) Node \<Rightarrow> 'w Message \<Rightarrow> fault + rv \<times> 'w Node" where
  "OnUserMessage n message =
     (let port_name = header_port_name message;
          port = GetPort n port_name
      in case accept_ports (msg_ports message) n of
           (r, n1) \<Rightarrow>
             if r \<noteq> OK then Inr (r, n1)
             else
               (case port of
                  None \<Rightarrow>
                    (case close_ports (port_names message) n1 of
                       Inl f \<Rightarrow> Inl f
                     | Inr n2 \<Rightarrow> Inr (OK, n2))
                | Some a \<Rightarrow>
                   (case lock_guard n1 a of
                      Inl f \<Rightarrow> Inl f
                    | Inr p \<Rightarrow>
                        if CanAcceptMoreMessages p then
                          (case AcceptMessage_queue message (message_queue p) of
                             (q, has_next_message) \<Rightarrow>
                               let n2 = update_port a (\<lambda>x. x\<lparr>message_queue := q\<rparr>) n1
                               in if state p = kBuffering then Inr (OK, n2)
                                  else if state p = kProxying then
                                    (case ForwardMessages_Locked n2 a port_name of
                                       Inl f \<Rightarrow> Inl f
                                     | Inr (r2, n3) \<Rightarrow>
                                         if r2 \<noteq> OK then Inr (r2, n3)
                                         else
                                           (case MaybeRemoveProxy_Locked n3 a port_name of
                                              Inl f \<Rightarrow> Inl f
                                            | Inr n4 \<Rightarrow> Inr (OK, n4)))
                                  else if has_next_message then
                                    Inr (OK, PortStatusChanged
                                               \<lparr>ref_name = port_name, ref_port = a\<rparr> n2)
                                  else Inr (OK, n2))
                        else
                          (case close_ports (port_names message) n1 of
                             Inl f \<Rightarrow> Inl f
                           | Inr n2 \<Rightarrow> Inr (OK, n2)))))"

subsection \<open>GetMessage\<close>

text \<open>
  The loop of \<^verbatim>\<open>GetMessageIf\<close> that makes the ports of a delivered message
  signalable. A name that is not in the map gives a null pointer, which the
  loop dereferences.
\<close>

fun signalize_ports :: "PortName list \<Rightarrow> ('w::len) Node \<Rightarrow> fault + 'w Node" where
  "signalize_ports [] n = Inr n"
| "signalize_ports (name # names) n =
     (case GetPort n name of
        None \<Rightarrow> Inl NullDeref
      | Some b \<Rightarrow>
         (case lock_guard n b of
            Inl f \<Rightarrow> Inl f
          | Inr new_port \<Rightarrow>
              signalize_ports names
                (update_port b
                   (\<lambda>p. p\<lparr>message_queue := set_signalable True (message_queue p)\<rparr>) n)))"

text \<open>
  \<^verbatim>\<open>GetMessageIf(port_ref, selector, message)\<close>: the return code, the
  message written to \<^verbatim>\<open>*message\<close> (\<open>None\<close> for null) and the node
  afterwards.
\<close>

definition GetMessageIf ::
  "('w::len) Node \<Rightarrow> PortRef \<Rightarrow> ('w Message \<Rightarrow> bool) option
     \<Rightarrow> fault + rv \<times> 'w Message option \<times> 'w Node" where
  "GetMessageIf n port_ref selector =
     (case lock_guard n (ref_port port_ref) of
        Inl f \<Rightarrow> Inl f
      | Inr port \<Rightarrow>
          if state port \<noteq> kReceiving then Inr (ERROR_PORT_STATE_UNEXPECTED, None, n)
          else if \<not> CanAcceptMoreMessages port then Inr (ERROR_PORT_PEER_CLOSED, None, n)
          else
            (case GetNextMessageIf selector (message_queue port) of
               (None, q) \<Rightarrow> Inr (OK, None, n)
             | (Some message, q) \<Rightarrow>
                 (case signalize_ports (port_names message)
                         (update_port (ref_port port_ref)
                            (\<lambda>p. p\<lparr>message_queue := q\<rparr>) n) of
                    Inl f \<Rightarrow> Inl f
                  | Inr n2 \<Rightarrow> Inr (OK, Some message, n2))))"

definition GetMessage ::
  "('w::len) Node \<Rightarrow> PortRef \<Rightarrow> fault + rv \<times> 'w Message option \<times> 'w Node" where
  "GetMessage n port_ref = GetMessageIf n port_ref None"

subsection \<open>AcceptMessage\<close>

definition AcceptMessage ::
  "('w::len) Node \<Rightarrow> 'w Message \<Rightarrow> fault + rv \<times> 'w Node" where
  "AcceptMessage n message =
     (case header_type message of
        kUser \<Rightarrow> OnUserMessage n message
      | kPortAccepted \<Rightarrow> OnPortAccepted n (header_port_name message)
      | kObserveProxy \<Rightarrow>
          OnObserveProxy n (header_port_name message) (observe_proxy message)
      | kObserveProxyAck \<Rightarrow>
          OnObserveProxyAck n (header_port_name message) (last_sequence_num message)
      | kObserveClosure \<Rightarrow>
          OnObserveClosure n (header_port_name message) (last_sequence_num message)
      | kUnrecognized \<Rightarrow> Inr (OOPS ERROR_NOT_IMPLEMENTED, n))"

subsection \<open>The local message queue is left alone by event handling\<close>

declare ForwardMessages_Locked.simps [simp del]

lemma local_messages_lock_ports:
  "lock_ports a names ps n = Inr (r, ps', n') \<Longrightarrow> local_messages n' = local_messages n"
proof (induction names arbitrary: ps n)
  case Nil
  then show ?case by simp
next
  case (Cons name names)
  then show ?case
    by (fastforce simp: Let_def update_port_fields split: option.splits if_splits)
qed

lemma local_messages_WillSendPort_Locked:
  "WillSendPort_Locked n b to_node name = Inr (new_name, d, n') \<Longrightarrow>
   local_messages n' = local_messages n"
  by (auto simp: WillSendPort_Locked_def GenerateRandomPortName_def update_port_fields Let_def
      split: option.splits)

lemma local_messages_send_ports:
  "send_ports a bs es n = Inr (es', n') \<Longrightarrow> local_messages n' = local_messages n"
proof (induction bs arbitrary: es n es' n')
  case Nil
  then show ?case by simp
next
  case (Cons b bs)
  show ?case
  proof (cases es)
    case Nil
    with Cons.prems show ?thesis by simp
  next
    case (Cons e es0)
    obtain name d where e: "e = (name, d)" by (cases e)
    from Cons.prems obtain port where port: "store n a = Some port"
      by (auto simp: Cons e split: option.splits)
    from Cons.prems port obtain new_name descriptor n1 es1 where
      w: "WillSendPort_Locked n b (peer_node_name port) name = Inr (new_name, descriptor, n1)"
      and r: "send_ports a bs es0 n1 = Inr (es1, n')"
      by (auto simp: Cons e split: sum.splits)
    from Cons.IH [OF r] local_messages_WillSendPort_Locked [OF w] show ?thesis by simp
  qed
qed

lemma local_messages_unlock_ports:
  "local_messages (unlock_ports ps n) = local_messages n"
  unfolding unlock_ports_def
  by (induction ps arbitrary: n) (simp_all add: update_port_fields)

lemma local_messages_WillSendMessage_Locked:
  "WillSendMessage_Locked n a port_name message = Inr (r, message', ps, n') \<Longrightarrow>
   local_messages n' = local_messages n"
  by (auto simp: WillSendMessage_Locked_def Let_def update_port_fields
        local_messages_unlock_ports
      split: option.splits if_splits sum.splits
      dest!: local_messages_lock_ports local_messages_send_ports)

lemma ForwardMessages_Locked_step:
  assumes "ForwardMessages_Locked n a port_name = Inr (r, n')"
  obtains (finished) port where "store n a = Some port"
      "fst (GetNextMessageIf None (message_queue port)) = None" "r = OK" "n' = n"
  | (failed) port message q message' ports where "store n a = Some port"
      "GetNextMessageIf None (message_queue port) = (Some message, q)"
      "WillSendMessage_Locked (update_port a (\<lambda>p. p\<lparr>message_queue := q\<rparr>) n)
         a port_name message = Inr (r, message', ports, n')"
      "r \<noteq> OK"
  | (continued) port message q message' ports n2 port2 where "store n a = Some port"
      "GetNextMessageIf None (message_queue port) = (Some message, q)"
      "WillSendMessage_Locked (update_port a (\<lambda>p. p\<lparr>message_queue := q\<rparr>) n)
         a port_name message = Inr (OK, message', ports, n2)"
      "store n2 a = Some port2"
      "ForwardMessages_Locked (ForwardMessage (peer_node_name port2) message' n2)
         a port_name = Inr (r, n')"
  using assms [unfolded ForwardMessages_Locked.simps [of n a port_name]]
  by (auto split: option.splits prod.splits sum.splits if_splits)

lemma local_messages_ForwardMessages_Locked:
  "ForwardMessages_Locked n a port_name = Inr (r, n') \<Longrightarrow>
   local_messages n' = local_messages n"
proof (induction n a port_name rule: ForwardMessages_Locked.induct)
  case (1 n a port_name)
  from "1.prems" show ?case
  proof (cases rule: ForwardMessages_Locked_step)
    case finished
    then show ?thesis by simp
  next
    case failed
    then show ?thesis
      by (auto dest!: local_messages_WillSendMessage_Locked simp: update_port_fields)
  next
    case (continued port message q message' ports n2 port2)
    have "local_messages n' =
        local_messages (ForwardMessage (peer_node_name port2) message' n2)"
      using "1.IH" [OF continued(1) continued(2) [symmetric] refl continued(3) refl refl refl _ continued(4) continued(5)]
      by simp
    with local_messages_WillSendMessage_Locked [OF continued(3)] show ?thesis
      by (simp add: ForwardMessage_def update_port_fields)
  qed
qed

lemma local_messages_MaybeRemoveProxy_Locked:
  "MaybeRemoveProxy_Locked n a port_name = Inr n' \<Longrightarrow>
   local_messages n' = local_messages n"
  by (auto simp: MaybeRemoveProxy_Locked_def ErasePort_def ForwardMessage_def Let_def
      split: option.splits if_splits)

lemma local_messages_InitiateProxyRemoval_Locked:
  "InitiateProxyRemoval_Locked n a port_name = Inr n' \<Longrightarrow>
   local_messages n' = local_messages n"
  by (auto simp: InitiateProxyRemoval_Locked_def ForwardMessage_def Let_def
      split: option.splits)

lemma local_messages_OnPortAccepted:
  "OnPortAccepted n port_name = Inr (r, n') \<Longrightarrow> local_messages n' = local_messages n"
  by (auto simp: OnPortAccepted_def update_port_fields
      split: option.splits sum.splits if_splits
      dest!: local_messages_ForwardMessages_Locked local_messages_MaybeRemoveProxy_Locked
        local_messages_InitiateProxyRemoval_Locked)

lemma local_messages_OnObserveProxy:
  "OnObserveProxy n port_name event = Inr (r, n') \<Longrightarrow> local_messages n' = local_messages n"
  by (auto simp: OnObserveProxy_def update_port_fields ForwardMessage_def Let_def
      split: option.splits sum.splits if_splits)

lemma local_messages_OnObserveProxyAck:
  "OnObserveProxyAck n port_name last_num = Inr (r, n') \<Longrightarrow>
   local_messages n' = local_messages n"
  by (auto simp: OnObserveProxyAck_def update_port_fields Let_def
      split: option.splits sum.splits if_splits
      dest!: local_messages_MaybeRemoveProxy_Locked
        local_messages_InitiateProxyRemoval_Locked)

lemma local_messages_OnObserveClosure:
  "OnObserveClosure n port_name last_num = Inr (r, n') \<Longrightarrow>
   local_messages n' = local_messages n"
  by (auto simp: OnObserveClosure_def update_port_fields Let_def ForwardMessage_def
        PortStatusChanged_def
      split: option.splits sum.splits if_splits
      dest!: local_messages_MaybeRemoveProxy_Locked)

lemma local_messages_AcceptPort:
  "AcceptPort n name d = (r, n') \<Longrightarrow> local_messages n' = local_messages n"
  by (auto simp: AcceptPort_def make_shared_def AddPortWithName_def ForwardMessage_def
        Let_def
      split: option.splits if_splits)

lemma local_messages_accept_ports:
  "accept_ports es n = (r, n') \<Longrightarrow> local_messages n' = local_messages n"
proof (induction es arbitrary: n)
  case Nil
  then show ?case by simp
next
  case (Cons e es)
  obtain name d where e: "e = (name, d)" by (cases e)
  obtain r1 n1 where a: "AcceptPort n name d = (r1, n1)" by (cases "AcceptPort n name d")
  from Cons.prems Cons.IH [of n1] local_messages_AcceptPort [OF a] show ?case
    by (auto simp: e a split: if_splits)
qed

lemma local_messages_ClosePort:
  "ClosePort n port_ref = Inr (r, n') \<Longrightarrow> local_messages n' = local_messages n"
  by (auto simp: ClosePort_def update_port_fields ForwardMessage_def ErasePort_def Let_def
      split: sum.splits if_splits)

lemma local_messages_close_ports:
  "close_ports names n = Inr n' \<Longrightarrow> local_messages n' = local_messages n"
proof (induction names arbitrary: n)
  case Nil
  then show ?case by simp
next
  case (Cons name names)
  then show ?case
    by (fastforce split: prod.splits option.splits sum.splits if_splits
        dest: local_messages_ClosePort)
qed

lemma local_messages_OnUserMessage:
  "OnUserMessage n message = Inr (r, n') \<Longrightarrow> local_messages n' = local_messages n"
  by (auto simp: OnUserMessage_def Let_def update_port_fields PortStatusChanged_def
      split: prod.splits option.splits sum.splits if_splits
      dest!: local_messages_accept_ports local_messages_close_ports
        local_messages_ForwardMessages_Locked local_messages_MaybeRemoveProxy_Locked)

lemma local_messages_AcceptMessage:
  "AcceptMessage n message = Inr (r, n') \<Longrightarrow> local_messages n' = local_messages n"
  by (auto simp: AcceptMessage_def split: EventType.splits
      dest: local_messages_OnUserMessage local_messages_OnPortAccepted
        local_messages_OnObserveProxy local_messages_OnObserveProxyAck
        local_messages_OnObserveClosure)

subsection \<open>SendMessage\<close>

text \<open>
  The loop of \<^verbatim>\<open>SendMessage\<close> that flushes the local message queue. A
  message accepted with an error ends the loop at once, with
  \<^verbatim>\<open>is_delivering_local_messages_\<close> still set.
\<close>

function deliver_local_messages :: "('w::len) Node \<Rightarrow> fault + rv \<times> 'w Node" where
  "deliver_local_messages n =
     (case local_messages n of
        [] \<Rightarrow> Inr (OK, n\<lparr>is_delivering_local_messages := False\<rparr>)
      | next_message # rest \<Rightarrow>
         (case AcceptMessage (n\<lparr>local_messages := rest\<rparr>) next_message of
            Inl f \<Rightarrow> Inl f
          | Inr (r, n1) \<Rightarrow>
              if r \<noteq> OK then Inr (r, n1) else deliver_local_messages n1))"
  by pat_completeness auto
termination
  apply (relation "measure (\<lambda>n. length (local_messages n))")
   apply simp
  subgoal premises prems for n next_message rest b r n1
    using prems local_messages_AcceptMessage [of "n\<lparr>local_messages := rest\<rparr>" next_message r n1]
    by simp
  done

definition SendMessage ::
  "('w::len) Node \<Rightarrow> PortRef \<Rightarrow> 'w Message \<Rightarrow> fault + rv \<times> 'w Node" where
  "SendMessage n port_ref message =
     (if ref_name port_ref \<in> set (port_names message)
      then Inr (ERROR_PORT_CANNOT_SEND_SELF, n)
      else
        (case lock_guard n (ref_port port_ref) of
           Inl f \<Rightarrow> Inl f
         | Inr port \<Rightarrow>
             if state port \<noteq> kReceiving \<and> state port \<noteq> kUninitialized
             then Inr (ERROR_PORT_STATE_UNEXPECTED, n)
             else if state port = kReceiving \<and> peer_closed port
             then Inr (ERROR_PORT_PEER_CLOSED, n)
             else
               (case WillSendMessage_Locked n (ref_port port_ref) (ref_name port_ref)
                       message of
                  Inl f \<Rightarrow> Inl f
                | Inr (r, message1, ports_taken, n1) \<Rightarrow>
                    if r \<noteq> OK then Inr (r, n1)
                    else
                      (case store n1 (ref_port port_ref) of
                         None \<Rightarrow> Inl NullDeref
                       | Some port1 \<Rightarrow>
                           if state port1 = kUninitialized then
                             Inr (OK, update_port (ref_port port_ref)
                                        (\<lambda>p. p\<lparr>outgoing_messages :=
                                                 outgoing_messages p @ [message1],
                                               outgoing_ports :=
                                                 outgoing_ports p @ ports_taken\<rparr>) n1)
                           else if peer_node_name port1 \<noteq> node_name n1 then
                             Inr (OK, ForwardMessage (peer_node_name port1) message1 n1)
                           else
                             (let deliver = \<not> is_delivering_local_messages n1;
                                  n2 = n1\<lparr>is_delivering_local_messages := True,
                                          local_messages :=
                                            local_messages n1 @ [message1]\<rparr>
                              in if deliver then deliver_local_messages n2
                                 else Inr (OK, n2))))))"

section \<open>What a proxy forwards\<close>

text \<open>
  \<open>same_routing\<close> relates two nodes that agree on everything but the port
  objects, the counter of generated names and the local message queue.
  \<open>in_order c h\<close> is the run of messages at the front of the heap \<open>h\<close>
  numbered \<open>c\<close>, \<open>c + 1\<close>, ..., the messages a queue with cursor \<open>c\<close>
  hands out in a row; \<open>drained q\<close> is the queue after it has handed them
  out. \<open>forwarded_as peer_port m m'\<close> says that \<open>m'\<close> is \<open>m\<close> as a
  proxy sends it on: addressed to \<open>peer_port\<close>, with the type, the payload
  and the number of ports of \<open>m\<close>, and with the sequence number of \<open>m\<close>
  unless that was 0. \<open>unstamped\<close> counts the messages whose sequence
  number is 0.
\<close>

definition same_routing :: "('w::len) Node \<Rightarrow> 'w Node \<Rightarrow> bool" where
  "same_routing n n' \<longleftrightarrow>
     forwarded n' = forwarded n \<and> node_ports n' = node_ports n \<and>
     node_name n' = node_name n \<and> status_changed n' = status_changed n \<and>
     next_addr n' = next_addr n"

lemma same_routing_refl [simp]: "same_routing n n"
  by (simp add: same_routing_def)

lemma same_routing_trans: "same_routing n n1 \<Longrightarrow> same_routing n1 n2 \<Longrightarrow> same_routing n n2"
  by (simp add: same_routing_def)

lemma same_routing_update_port [simp]:
  "same_routing n (update_port b f m) \<longleftrightarrow> same_routing n m"
  by (simp add: same_routing_def update_port_fields)

lemma same_routing_lock_ports:
  "lock_ports a names ps n = Inr (r, ps', n') \<Longrightarrow> same_routing n n'"
proof (induction names arbitrary: ps n)
  case Nil
  then show ?case by simp
next
  case (Cons name names)
  from Cons.prems show ?case
    by (auto simp: Let_def split: option.splits if_splits
        dest!: Cons.IH elim: same_routing_trans [rotated])
qed

lemma same_routing_WillSendPort_Locked:
  "WillSendPort_Locked n b to_node name = Inr (new_name, d, n') \<Longrightarrow> same_routing n n'"
  by (auto simp: WillSendPort_Locked_def GenerateRandomPortName_def Let_def
      split: option.splits)
    (simp add: same_routing_def)

lemma same_routing_send_ports:
  "send_ports a bs es n = Inr (es', n') \<Longrightarrow> same_routing n n'"
proof (induction bs arbitrary: es n es' n')
  case Nil
  then show ?case by simp
next
  case (Cons b bs)
  show ?case
  proof (cases es)
    case Nil
    with Cons.prems show ?thesis by simp
  next
    case (Cons e es0)
    obtain name d where e: "e = (name, d)" by (cases e)
    from Cons.prems obtain port where port: "store n a = Some port"
      by (auto simp: Cons e split: option.splits)
    from Cons.prems port obtain new_name descriptor n1 es1 where
      w: "WillSendPort_Locked n b (peer_node_name port) name = Inr (new_name, descriptor, n1)"
      and r: "send_ports a bs es0 n1 = Inr (es1, n')"
      by (auto simp: Cons e split: sum.splits)
    from Cons.IH [OF r] same_routing_WillSendPort_Locked [OF w] show ?thesis
      by (rule same_routing_trans [rotated])
  qed
qed

lemma same_routing_unlock_ports: "same_routing n (unlock_ports ps m) \<longleftrightarrow> same_routing n m"
  unfolding unlock_ports_def
  by (induction ps arbitrary: m) simp_all

lemma same_routing_WillSendMessage_Locked:
  assumes "WillSendMessage_Locked n a port_name message = Inr (r, message', ps, n')"
  shows "same_routing n n'"
proof -
  from assms obtain port where port: "store n a = Some port"
    by (auto simp: WillSendMessage_Locked_def split: option.splits)
  define n1 where "n1 = (if sequence_num message = 0
      then update_port a (\<lambda>p. p\<lparr>next_sequence_num_to_send := next_sequence_num_to_send p + 1\<rparr>) n
      else n)"
  have n1: "same_routing n n1" by (simp add: n1_def)
  show ?thesis
  proof (cases "msg_ports message = []")
    case True
    with assms port have "n' = n1"
      by (auto simp: WillSendMessage_Locked_def n1_def Let_def split: option.splits if_splits)
    with n1 show ?thesis by simp
  next
    case False
    with assms port obtain error ports n2 where
      l: "lock_ports a (port_names (if sequence_num message = 0
            then message\<lparr>sequence_num := next_sequence_num_to_send port\<rparr> else message))
            [] n1 = Inr (error, ports, n2)"
      by (auto simp: WillSendMessage_Locked_def n1_def Let_def split: sum.splits if_splits)
    note n2 = same_routing_trans [OF n1 same_routing_lock_ports [OF l]]
    show ?thesis
    proof (cases "error = OK")
      case True
      with assms port l False obtain entries n3 where
        sp: "send_ports a ports (msg_ports message) n2 = Inr (entries, n3)"
        and n': "n' = unlock_ports ports n3"
        by (auto simp: WillSendMessage_Locked_def n1_def Let_def
            split: sum.splits if_splits option.splits)
      from same_routing_trans [OF n2 same_routing_send_ports [OF sp]] n'
      show ?thesis by (simp add: same_routing_unlock_ports)
    next
      case error: False
      with assms port l False have "n' = n2"
        by (auto simp: WillSendMessage_Locked_def n1_def Let_def
            split: sum.splits if_splits option.splits)
      with n2 show ?thesis by simp
    qed
  qed
qed

lemma length_lock_ports:
  "lock_ports a names ps n = Inr (OK, ps', n') \<Longrightarrow> length ps' = length ps + length names"
proof (induction names arbitrary: ps n)
  case Nil
  then show ?case by simp
next
  case (Cons name names)
  from Cons.prems show ?case
    by (auto simp: Let_def split: option.splits if_splits dest!: Cons.IH)
qed

lemma length_send_ports:
  "send_ports a bs es n = Inr (es', n') \<Longrightarrow> length es' = min (length bs) (length es)"
proof (induction bs arbitrary: es n es' n')
  case Nil
  then show ?case by simp
next
  case (Cons b bs)
  show ?case
  proof (cases es)
    case Nil
    with Cons.prems show ?thesis by simp
  next
    case (Cons e es0)
    obtain name d where e: "e = (name, d)" by (cases e)
    from Cons.prems obtain port where port: "store n a = Some port"
      by (auto simp: Cons e split: option.splits)
    from Cons.prems port obtain new_name descriptor n1 es1 where
      r: "send_ports a bs es0 n1 = Inr (es1, n')" and es': "es' = (new_name, descriptor) # es1"
      by (auto simp: Cons e split: sum.splits)
    from Cons.IH [OF r] es' show ?thesis by (simp add: Cons)
  qed
qed

lemma WillSendMessage_Locked_sequence_num:
  assumes "WillSendMessage_Locked n a port_name message = Inr (r, message', ps, n')"
    and "store n a = Some p"
  shows "sequence_num message' =
           (if sequence_num message = 0 then next_sequence_num_to_send p
            else sequence_num message)"
  using assms
  by (auto simp: WillSendMessage_Locked_def Let_def
      split: option.splits if_splits sum.splits)

lemma WillSendMessage_Locked_message:
  assumes "WillSendMessage_Locked n a port_name message = Inr (OK, message', ps, n')"
    and "store n a = Some p"
  shows "header_port_name message' = peer_port_name p \<and>
         sequence_num message' =
           (if sequence_num message = 0 then next_sequence_num_to_send p
            else sequence_num message) \<and>
         header_type message' = header_type message \<and>
         payload message' = payload message \<and>
         length (msg_ports message') = length (msg_ports message)"
proof -
  note after = WillSendMessage_Locked_sender [OF assms]
  show ?thesis
  proof (cases "msg_ports message = []")
    case True
    with assms show ?thesis
      by (auto simp: WillSendMessage_Locked_def store_update_port Let_def
          split: option.splits if_splits)
  next
    case False
    define message1 where "message1 = (if sequence_num message = 0
        then message\<lparr>sequence_num := next_sequence_num_to_send p\<rparr> else message)"
    define n1 where "n1 = (if sequence_num message = 0
        then update_port a (\<lambda>p. p\<lparr>next_sequence_num_to_send := next_sequence_num_to_send p + 1\<rparr>) n
        else n)"
    from assms False obtain ports n2 entries n3 port4 where
      l: "lock_ports a (port_names message1) [] n1 = Inr (OK, ports, n2)"
      and sp: "send_ports a ports (msg_ports message1) n2 = Inr (entries, n3)"
      and n': "n' = unlock_ports ports n3" and port4: "store n' a = Some port4"
      and m': "message' = message1\<lparr>msg_ports := entries,
                 header_port_name := peer_port_name port4\<rparr>"
      by (auto simp: WillSendMessage_Locked_def message1_def n1_def Let_def
          split: sum.splits if_splits option.splits)
    have "length entries = length (msg_ports message)"
      using length_lock_ports [OF l] length_send_ports [OF sp]
      by (simp add: port_names_def message1_def split: if_splits)
    moreover have "peer_port_name port4 = peer_port_name p"
      using after port4 by auto
    ultimately show ?thesis
      by (simp add: m' message1_def)
  qed
qed


fun in_order :: "'w word \<Rightarrow> ('w::len) Message list \<Rightarrow> 'w Message list" where
  "in_order c [] = []"
| "in_order c (m # h) =
     (if GetSequenceNum m = c then m # in_order (c + 1) h else [])"

definition drained :: "('w::len) MessageQueue \<Rightarrow> 'w MessageQueue" where
  "drained q =
     q\<lparr>heap := drop (length (in_order (next_sequence_num q) (heap q))) (heap q),
       next_sequence_num :=
         next_sequence_num q + of_nat (length (in_order (next_sequence_num q) (heap q)))\<rparr>"

definition forwarded_as :: "PortName \<Rightarrow> ('w::len) Message \<Rightarrow> 'w Message \<Rightarrow> bool" where
  "forwarded_as peer_port m m' \<longleftrightarrow>
     header_port_name m' = peer_port \<and> header_type m' = header_type m \<and>
     payload m' = payload m \<and> length (msg_ports m') = length (msg_ports m) \<and>
     (sequence_num m = 0 \<or> sequence_num m' = sequence_num m)"

definition unstamped :: "('w::len) Message list \<Rightarrow> nat" where
  "unstamped ms = length (filter (\<lambda>m. sequence_num m = 0) ms)"

lemma GetNextMessageIf_None_in_order:
  "fst (GetNextMessageIf None q) = None \<Longrightarrow> in_order (next_sequence_num q) (heap q) = []"
  by (auto simp: GetNextMessageIf_def split: list.splits if_splits)

lemma GetNextMessageIf_Some_in_order:
  assumes "GetNextMessageIf None q = (Some message, q1)"
  shows "in_order (next_sequence_num q) (heap q) =
           message # in_order (next_sequence_num q1) (heap q1)"
    and "drained q1 = drained q"
  using assms
  by (auto simp: GetNextMessageIf_def drained_def split: list.splits if_splits)

lemma ForwardMessages_Locked_OK:
  "ForwardMessages_Locked n a port_name = Inr (OK, n') \<Longrightarrow> store n a = Some p \<Longrightarrow>
   \<exists>out.
     store n' a =
       Some (p\<lparr>message_queue := drained (message_queue p),
               next_sequence_num_to_send :=
                 next_sequence_num_to_send p +
                 of_nat (unstamped (in_order (next_sequence_num (message_queue p))
                                      (heap (message_queue p))))\<rparr>) \<and>
     forwarded n' = forwarded n @ map (Pair (peer_node_name p)) out \<and>
     list_all2 (forwarded_as (peer_port_name p))
       (in_order (next_sequence_num (message_queue p)) (heap (message_queue p))) out \<and>
     node_ports n' = node_ports n \<and> node_name n' = node_name n"
proof (induction n a port_name arbitrary: p n' rule: ForwardMessages_Locked.induct)
  case (1 n a port_name)
  from "1.prems"(1) show ?case
  proof (cases rule: ForwardMessages_Locked_step)
    case (finished port)
    with "1.prems"(2) have "in_order (next_sequence_num (message_queue p))
        (heap (message_queue p)) = []"
      by (simp add: GetNextMessageIf_None_in_order)
    with finished show ?thesis
      by (simp add: drained_def unstamped_def "1.prems"(2))
  next
    case (failed port message q message' ports)
    then show ?thesis by simp
  next
    case (continued port message q1 message' ports n2 port2)
    have port: "port = p" using continued(1) "1.prems"(2) by simp
    let ?n1 = "update_port a (\<lambda>p. p\<lparr>message_queue := q1\<rparr>) n"
    let ?n3 = "ForwardMessage (peer_node_name port2) message' n2"
    have s1: "store ?n1 a = Some (p\<lparr>message_queue := q1\<rparr>)"
      using "1.prems"(2) by (simp add: store_update_port)
    have port2: "port2 = p\<lparr>message_queue := q1,
        next_sequence_num_to_send :=
          (if sequence_num message = 0 then next_sequence_num_to_send p + 1
           else next_sequence_num_to_send p)\<rparr>"
      using WillSendMessage_Locked_sender [OF continued(3) s1] continued(4) by simp
    have s3: "store ?n3 a = Some port2"
      using continued(4) by (simp add: ForwardMessage_def)
    have fa: "forwarded_as (peer_port_name p) message message'"
      using WillSendMessage_Locked_message [OF continued(3) s1]
      by (simp add: forwarded_as_def)
    have r: "same_routing n n2"
      using same_routing_WillSendMessage_Locked [OF continued(3)]
      by (simp add: same_routing_def update_port_fields)
    have "\<exists>out.
       store n' a =
         Some (port2\<lparr>message_queue := drained (message_queue port2),
                 next_sequence_num_to_send :=
                   next_sequence_num_to_send port2 +
                   of_nat (unstamped (in_order (next_sequence_num (message_queue port2))
                                        (heap (message_queue port2))))\<rparr>) \<and>
       forwarded n' = forwarded ?n3 @ map (Pair (peer_node_name port2)) out \<and>
       list_all2 (forwarded_as (peer_port_name port2))
         (in_order (next_sequence_num (message_queue port2)) (heap (message_queue port2)))
         out \<and>
       node_ports n' = node_ports ?n3 \<and> node_name n' = node_name ?n3"
      by (rule "1.IH" [OF continued(1) continued(2) [symmetric] refl continued(3)
            refl refl refl _ continued(4) continued(5) s3]) simp
    then obtain out where
      st: "store n' a =
         Some (port2\<lparr>message_queue := drained (message_queue port2),
                 next_sequence_num_to_send :=
                   next_sequence_num_to_send port2 +
                   of_nat (unstamped (in_order (next_sequence_num (message_queue port2))
                                        (heap (message_queue port2))))\<rparr>)"
      and fw: "forwarded n' = forwarded ?n3 @ map (Pair (peer_node_name port2)) out"
      and la: "list_all2 (forwarded_as (peer_port_name port2))
         (in_order (next_sequence_num (message_queue port2)) (heap (message_queue port2)))
         out"
      and np: "node_ports n' = node_ports ?n3" "node_name n' = node_name ?n3"
      by blast
    note io = GetNextMessageIf_Some_in_order [OF continued(2) [unfolded port]]
    have "store n' a =
       Some (p\<lparr>message_queue := drained (message_queue p),
               next_sequence_num_to_send :=
                 next_sequence_num_to_send p +
                 of_nat (unstamped (in_order (next_sequence_num (message_queue p))
                                      (heap (message_queue p))))\<rparr>)"
      using st by (simp add: port2 io unstamped_def)
    moreover have "forwarded n' =
        forwarded n @ map (Pair (peer_node_name p)) (message' # out)"
      using fw r by (simp add: port2 ForwardMessage_def same_routing_def)
    moreover have "list_all2 (forwarded_as (peer_port_name p))
       (in_order (next_sequence_num (message_queue p)) (heap (message_queue p)))
       (message' # out)"
      using la fa by (simp add: port2 io)
    moreover have "node_ports n' = node_ports n" "node_name n' = node_name n"
      using np r by (simp_all add: ForwardMessage_def same_routing_def)
    ultimately show ?thesis by blast
  qed
qed




lemma forwarded_as_sequence_nums:
  "list_all2 (forwarded_as peer_port) xs ys \<Longrightarrow> \<forall>m \<in> set xs. sequence_num m \<noteq> 0 \<Longrightarrow>
   map sequence_num ys = map sequence_num xs"
  by (induction rule: list_all2_induct) (auto simp: forwarded_as_def)

section \<open>Ports that arrive with a message\<close>











section \<open>Reading a port until its peer is reported closed\<close>

text \<open>
  A reader calls \<^verbatim>\<open>GetMessageIf\<close> on one port again and again, with the
  selectors of the list, and stops at the first call that does not return
  \<open>OK\<close>. \<open>get_messages\<close> gives the return code of the last call, the
  messages the calls have handed out, in order, and the node afterwards.
\<close>

fun get_messages ::
  "('w::len) Node \<Rightarrow> PortRef \<Rightarrow> ('w Message \<Rightarrow> bool) option list
     \<Rightarrow> fault + rv \<times> 'w Message list \<times> 'w Node" where
  "get_messages n port_ref [] = Inr (OK, [], n)"
| "get_messages n port_ref (selector # selectors) =
     (case GetMessageIf n port_ref selector of
        Inl f \<Rightarrow> Inl f
      | Inr (r, message, n1) \<Rightarrow>
          if r \<noteq> OK then Inr (r, [], n1)
          else
            (case get_messages n1 port_ref selectors of
               Inl f \<Rightarrow> Inl f
             | Inr (r', messages, n2) \<Rightarrow>
                 Inr (r',
                      (case message of None \<Rightarrow> messages | Some m \<Rightarrow> m # messages),
                      n2)))"

lemma signalize_ports_port:
  "signalize_ports names n = Inr n' \<Longrightarrow> store n a = Some p \<Longrightarrow>
   \<exists>b. store n' a = Some (p\<lparr>message_queue := (message_queue p)\<lparr>signalable := b\<rparr>\<rparr>)"
proof (induction names arbitrary: n p)
  case Nil
  then have "store n' a = Some (p\<lparr>message_queue := (message_queue p)\<lparr>signalable := signalable (message_queue p)\<rparr>\<rparr>)"
    by simp
  then show ?case by blast
next
  case (Cons name names)
  from Cons.prems(1) obtain b where b: "GetPort n name = Some b"
    and r: "signalize_ports names
        (update_port b (\<lambda>p. p\<lparr>message_queue := set_signalable True (message_queue p)\<rparr>) n)
        = Inr n'"
    by (auto split: option.splits sum.splits)
  let ?n1 = "update_port b (\<lambda>p. p\<lparr>message_queue := set_signalable True (message_queue p)\<rparr>) n"
  obtain c where "store ?n1 a = Some (p\<lparr>message_queue := (message_queue p)\<lparr>signalable := c\<rparr>\<rparr>)"
  proof (cases "a = b")
    case True
    with Cons.prems(2) have "store ?n1 a =
        Some (p\<lparr>message_queue := (message_queue p)\<lparr>signalable := True\<rparr>\<rparr>)"
      by (simp add: store_update_port set_signalable_def)
    then show ?thesis by (rule that)
  next
    case False
    with Cons.prems(2) have "store ?n1 a =
        Some (p\<lparr>message_queue := (message_queue p)\<lparr>signalable := signalable (message_queue p)\<rparr>\<rparr>)"
      by (simp add: store_update_port)
    then show ?thesis by (rule that)
  qed
  from Cons.IH [OF r this] show ?case by auto
qed

lemma GetMessageIf_peer_closed:
  assumes "store n (ref_port port_ref) = Some port" and "\<not> locked port"
    and "state port = kReceiving" and "peer_closed port"
  shows "GetMessageIf n port_ref selector =
     (if next_sequence_num (message_queue port) = last_sequence_num_to_receive port + 1
      then Inr (ERROR_PORT_PEER_CLOSED, None, n)
      else
        (case GetNextMessageIf selector (message_queue port) of
           (None, q) \<Rightarrow> Inr (OK, None, n)
         | (Some message, q) \<Rightarrow>
             (case signalize_ports (port_names message)
                     (update_port (ref_port port_ref) (\<lambda>p. p\<lparr>message_queue := q\<rparr>) n) of
                Inl f \<Rightarrow> Inl f
              | Inr n2 \<Rightarrow> Inr (OK, Some message, n2))))"
proof -
  have "last_sequence_num_to_receive port = next_sequence_num (message_queue port) - 1
     \<longleftrightarrow> next_sequence_num (message_queue port) = last_sequence_num_to_receive port + 1"
    by auto
  with assms show ?thesis
    by (simp add: GetMessageIf_def lock_guard_def CanAcceptMoreMessages_def)
qed

lemma unat_step: "(x :: 'w::len word) \<noteq> 0 \<Longrightarrow> unat x = Suc (unat (x - 1))"
  by (simp add: unat_minus_one unat_gt_0)

lemma get_messages_until_closed:
  "get_messages n port_ref selectors = Inr (ERROR_PORT_PEER_CLOSED, messages, n') \<Longrightarrow>
   store n (ref_port port_ref) = Some port \<Longrightarrow> state port = kReceiving \<Longrightarrow>
   peer_closed port \<Longrightarrow>
   length messages =
     unat (last_sequence_num_to_receive port + 1 - next_sequence_num (message_queue port)) \<and>
   map sequence_num messages =
     map (\<lambda>i. next_sequence_num (message_queue port) + of_nat i) [0..<length messages]"
proof (induction selectors arbitrary: n port messages)
  case Nil
  then show ?case by simp
next
  case (Cons selector selectors)
  let ?a = "ref_port port_ref"
  let ?k = "last_sequence_num_to_receive port"
  let ?f = "next_sequence_num (message_queue port)"
  have unlocked: "\<not> locked port"
    using Cons.prems(1,2) by (auto simp: GetMessageIf_def lock_guard_def)
  note g = GetMessageIf_peer_closed [OF Cons.prems(2) unlocked Cons.prems(3,4), of selector]
  show ?case
  proof (cases "?f = ?k + 1")
    case True
    with Cons.prems(1) g have "messages = []" by simp
    with True show ?thesis by simp
  next
    case more: False
    obtain result q where gn: "GetNextMessageIf selector (message_queue port) = (result, q)"
      by (cases "GetNextMessageIf selector (message_queue port)")
    show ?thesis
    proof (cases result)
      case None
      with g gn more have "GetMessageIf n port_ref selector = Inr (OK, None, n)"
        by simp
      with Cons.prems(1) have "get_messages n port_ref selectors =
          Inr (ERROR_PORT_PEER_CLOSED, messages, n')"
        by (auto split: sum.splits)
      from Cons.IH [OF this Cons.prems(2,3,4)] show ?thesis .
    next
      case (Some m)
      let ?n1 = "update_port ?a (\<lambda>p. p\<lparr>message_queue := q\<rparr>) n"
      from Cons.prems(1) g gn more Some obtain n2 where
        sg: "signalize_ports (port_names m) ?n1 = Inr n2"
        and gm: "GetMessageIf n port_ref selector = Inr (OK, Some m, n2)"
        by (auto split: sum.splits)
      from Cons.prems(1) gm obtain ms where
        ms: "get_messages n2 port_ref selectors = Inr (ERROR_PORT_PEER_CLOSED, ms, n')"
        and messages: "messages = m # ms"
        by (auto split: sum.splits)
      have "store ?n1 ?a = Some (port\<lparr>message_queue := q\<rparr>)"
        using Cons.prems(2) by (simp add: store_update_port)
      from signalize_ports_port [OF sg this] obtain b where
        s2: "store n2 ?a = Some (port\<lparr>message_queue := q\<lparr>signalable := b\<rparr>\<rparr>)"
        by auto
      note q = GetNextMessageIf_Some [OF gn [unfolded Some]]
      from Cons.IH [OF ms s2] Cons.prems(3,4)
      have len: "length ms = unat (?k + 1 - (?f + 1))"
        and nums: "map sequence_num ms = map (\<lambda>i. ?f + 1 + of_nat i) [0..<length ms]"
        using q by simp_all
      have "?k + 1 - ?f \<noteq> 0" using more by auto
      from unat_step [OF this] len have "length messages = unat (?k + 1 - ?f)"
        by (simp add: messages diff_diff_eq [symmetric])
      moreover have "map sequence_num messages =
          map (\<lambda>i. ?f + of_nat i) [0..<length messages]"
      proof -
        have "[0..<length messages] = 0 # map Suc [0..<length ms]"
          by (simp add: messages upt_conv_Cons map_Suc_upt del: upt_Suc)
        moreover have "sequence_num m = ?f"
          using q by (simp add: GetSequenceNum_def)
        ultimately show ?thesis
          using nums by (simp add: messages comp_def add.assoc)
      qed
      ultimately show ?thesis by simp
    qed
  qed
qed


section \<open>Example states\<close>

text \<open>
  Concrete messages, queues, ports and nodes on which the theorems below are
  exercised: node 1 holds port 10 at address 0, whose peer is port 20 on node 2.
\<close>

definition user_message :: "PortName \<Rightarrow> 'w word \<Rightarrow> ('w::len) Message" where
  "user_message port_name num =
     (NewInternalMessage port_name kUser empty_proxy_data 0)\<lparr>sequence_num := num\<rparr>"

definition message_with_ports :: "PortName \<Rightarrow> PortName list \<Rightarrow> 64 Message" where
  "message_with_ports port_name names =
     (NewInternalMessage port_name kUser empty_proxy_data 0)
       \<lparr>msg_ports := map (\<lambda>name. (name, empty_descriptor)) names\<rparr>"

definition example_queue :: "64 MessageQueue" where
  "example_queue =
     \<lparr>heap = [user_message 7 1, user_message 7 3], next_sequence_num = 1,
      signalable = True\<rparr>"

definition example_port :: "64 Port" where
  "example_port = (new_Port 5 3)\<lparr>peer_node_name := 2, peer_port_name := 20\<rparr>"

definition example_node :: "64 Port \<Rightarrow> 64 Node" where
  "example_node port =
     \<lparr>node_name = 1, node_ports = [10 \<mapsto> 0], store = [0 \<mapsto> port], next_addr = 1,
      local_messages = [], is_delivering_local_messages = False, forwarded = [],
      status_changed = [], name_source = (\<lambda>i. 100 + i), names_generated = 0\<rparr>"

definition example_ref :: PortRef where
  "example_ref = \<lparr>ref_name = 10, ref_port = 0\<rparr>"

lemmas example_defs = example_port_def example_node_def example_ref_def new_Port_def
  new_MessageQueue_def NewInternalMessage_def empty_proxy_data_def

definition queued_port :: "State \<Rightarrow> 64 Port" where
  "queued_port s =
     example_port
       \<lparr>state := s,
        message_queue :=
          \<lparr>heap = [user_message 10 3, user_message 10 4, user_message 10 6],
           next_sequence_num = 3, signalable = True\<rparr>\<rparr>"



definition peer_closed_port :: "64 word \<Rightarrow> 64 word \<Rightarrow> 64 Message list \<Rightarrow> 64 Port" where
  "peer_closed_port k c h =
     example_port
       \<lparr>peer_closed := True, last_sequence_num_to_receive := k,
        message_queue := \<lparr>heap = h, next_sequence_num = c, signalable = True\<rparr>\<rparr>"

definition notified :: "PortRef list \<Rightarrow> 64 Port \<Rightarrow> 64 Node" where
  "notified refs port = (example_node port)\<lparr>status_changed := refs\<rparr>"

definition example_event :: ObserveProxyEventData where
  "example_event =
     \<lparr>proxy_node_name = 2, proxy_port_name = 20,
      proxy_to_node_name = 3, proxy_to_port_name = 30\<rparr>"

definition proxy_port :: "64 word \<Rightarrow> 64 Port" where
  "proxy_port next_num =
     example_port\<lparr>state := kProxying,
        message_queue := new_MessageQueue next_num,
        send_on_proxy_removal :=
          Some (4, NewInternalMessage 40 kObserveProxyAck empty_proxy_data 0)\<rparr>"

definition three_ports :: "64 Port \<Rightarrow> 64 Port \<Rightarrow> 64 Port \<Rightarrow> 64 Node" where
  "three_ports p0 p1 p2 =
     (example_node p0)
       \<lparr>node_ports := [10 \<mapsto> 0, 11 \<mapsto> 1, 12 \<mapsto> 2],
        store := [0 \<mapsto> p0, 1 \<mapsto> p1, 2 \<mapsto> p2], next_addr := 3\<rparr>"

section \<open>The message queue hands out messages in order\<close>

lemma Min_sorted_head:
  assumes "sorted (map f (x # xs))"
  shows "Min (f ` set (x # xs)) = f x"
proof -
  have "\<forall>y \<in> set (x # xs). f x \<le> f y"
    using assms by auto
  then show ?thesis
    by (intro Min_eqI) auto
qed

lemma sorted_push_heap:
  "sorted (map GetSequenceNum h) \<Longrightarrow> sorted (map GetSequenceNum (push_heap message h))"
  by (simp add: push_heap_def sorted_insort_key)

lemma mset_push_heap: "mset (push_heap message h) = add_mset message (mset h)"
  by (simp add: push_heap_def)

lemma push_heap_not_Nil: "push_heap message h \<noteq> []"
  using mset_push_heap [of message h] by (cases "push_heap message h") auto

lemma AcceptMessage_queue_eq:
  "AcceptMessage_queue message q =
     (q\<lparr>heap := push_heap message (heap q)\<rparr>,
      signalable q \<and>
      (case push_heap message (heap q) of [] \<Rightarrow> False
       | m0 # _ \<Rightarrow> GetSequenceNum m0 = next_sequence_num q))"
  by (simp add: AcceptMessage_queue_def Let_def split: list.splits)

lemma GetNextMessageIf_eq:
  "GetNextMessageIf selector q =
     (case heap q of
        [] \<Rightarrow> (None, q)
      | m0 # rest \<Rightarrow>
          if GetSequenceNum m0 = next_sequence_num q \<and>
             (case selector of None \<Rightarrow> True | Some select \<Rightarrow> select m0)
          then (Some m0, q\<lparr>heap := rest, next_sequence_num := next_sequence_num q + 1\<rparr>)
          else (None, q))"
  by (simp add: GetNextMessageIf_def split: list.splits option.splits)

text \<open>
  Claim C9. With the heap in order, \<^verbatim>\<open>GetNextMessageIf\<close> hands out the heap's
  first message exactly when the heap is not empty, its lowest sequence number
  equals the cursor and the selector, if there is one, accepts that message; the
  cursor then advances by one and the message leaves the heap. In every other
  case the result is null and the queue is as before. The heap stays in order, a
  message handed out carries the cursor's number, and the next one handed out
  carries the number after it. \<^verbatim>\<open>AcceptMessage\<close> adds the message to the
  heap, keeps it in order, leaves cursor and flag alone and reports
  \<open>has_next_message\<close> exactly when the queue is signalable and the lowest
  sequence number of the heap equals the cursor.
\<close>

theorem MessageQueue_in_order:
  assumes "sorted (map GetSequenceNum (heap q))"
  shows
    "GetNextMessageIf selector q =
       (if heap q \<noteq> [] \<and>
           Min (GetSequenceNum ` set (heap q)) = next_sequence_num q \<and>
           (case selector of None \<Rightarrow> True | Some select \<Rightarrow> select (hd (heap q)))
        then (Some (hd (heap q)),
              q\<lparr>heap := tl (heap q), next_sequence_num := next_sequence_num q + 1\<rparr>)
        else (None, q)) \<and>
     sorted (map GetSequenceNum (heap (snd (GetNextMessageIf selector q)))) \<and>
     (case AcceptMessage_queue message q of
        (q', has_next_message) \<Rightarrow>
          mset (heap q') = add_mset message (mset (heap q)) \<and>
          sorted (map GetSequenceNum (heap q')) \<and>
          next_sequence_num q' = next_sequence_num q \<and>
          signalable q' = signalable q \<and>
          (has_next_message \<longleftrightarrow>
             signalable q \<and>
             Min (GetSequenceNum ` set (heap q')) = next_sequence_num q)) \<and>
     (\<forall>m1 q1 selector2 m2 q2.
        GetNextMessageIf selector q = (Some m1, q1) \<and>
        GetNextMessageIf selector2 q1 = (Some m2, q2) \<longrightarrow>
        GetSequenceNum m1 = next_sequence_num q \<and>
        GetSequenceNum m2 = GetSequenceNum m1 + 1)"
proof (intro conjI)
  show "GetNextMessageIf selector q =
       (if heap q \<noteq> [] \<and>
           Min (GetSequenceNum ` set (heap q)) = next_sequence_num q \<and>
           (case selector of None \<Rightarrow> True | Some select \<Rightarrow> select (hd (heap q)))
        then (Some (hd (heap q)),
              q\<lparr>heap := tl (heap q), next_sequence_num := next_sequence_num q + 1\<rparr>)
        else (None, q))"
  proof (cases "heap q")
    case Nil
    then show ?thesis by (simp add: GetNextMessageIf_eq)
  next
    case (Cons m0 rest)
    define lowest where "lowest = Min (GetSequenceNum ` set (heap q))"
    have "lowest = GetSequenceNum m0"
      using assms Min_sorted_head [of GetSequenceNum m0 rest] by (simp add: Cons lowest_def)
    then show ?thesis
      unfolding lowest_def [symmetric]
      by (simp add: GetNextMessageIf_eq Cons split: option.splits)
  qed
next
  show "sorted (map GetSequenceNum (heap (snd (GetNextMessageIf selector q))))"
    using assms by (cases "heap q") (simp_all add: GetNextMessageIf_eq)
next
  define h' where "h' = push_heap message (heap q)"
  define lowest where "lowest = Min (GetSequenceNum ` set h')"
  obtain m0 rest where c: "h' = m0 # rest"
    using push_heap_not_Nil [of message "heap q"] by (cases h') (auto simp: h'_def)
  have s: "sorted (map GetSequenceNum h')"
    using assms by (simp add: h'_def sorted_push_heap)
  then have "lowest = GetSequenceNum m0"
    using Min_sorted_head [of GetSequenceNum m0 rest] by (simp add: c lowest_def)
  moreover have "AcceptMessage_queue message q =
      (q\<lparr>heap := h'\<rparr>, signalable q \<and> GetSequenceNum m0 = next_sequence_num q)"
    using c by (simp add: AcceptMessage_queue_eq h'_def [symmetric])
  moreover have "mset h' = add_mset message (mset (heap q))"
    by (simp add: h'_def mset_push_heap)
  ultimately show "case AcceptMessage_queue message q of
        (q', has_next_message) \<Rightarrow>
          mset (heap q') = add_mset message (mset (heap q)) \<and>
          sorted (map GetSequenceNum (heap q')) \<and>
          next_sequence_num q' = next_sequence_num q \<and>
          signalable q' = signalable q \<and>
          (has_next_message \<longleftrightarrow>
             signalable q \<and>
             Min (GetSequenceNum ` set (heap q')) = next_sequence_num q)"
    using s by (simp add: lowest_def [symmetric])
next
  show "\<forall>m1 q1 selector2 m2 q2.
        GetNextMessageIf selector q = (Some m1, q1) \<and>
        GetNextMessageIf selector2 q1 = (Some m2, q2) \<longrightarrow>
        GetSequenceNum m1 = next_sequence_num q \<and>
        GetSequenceNum m2 = GetSequenceNum m1 + 1"
    by (auto dest!: GetNextMessageIf_Some)
qed

theorem MessageQueue_in_order_witness:
  "sorted (map GetSequenceNum (heap example_queue)) \<and>
   GetNextMessageIf None example_queue =
       (if heap example_queue \<noteq> [] \<and>
           Min (GetSequenceNum ` set (heap example_queue)) =
             next_sequence_num example_queue \<and>
           (case None of None \<Rightarrow> True | Some select \<Rightarrow> select (hd (heap example_queue)))
        then (Some (hd (heap example_queue)),
              example_queue\<lparr>heap := tl (heap example_queue),
                next_sequence_num := next_sequence_num example_queue + 1\<rparr>)
        else (None, example_queue)) \<and>
   sorted (map GetSequenceNum (heap (snd (GetNextMessageIf None example_queue)))) \<and>
   (case AcceptMessage_queue (user_message 7 2) example_queue of
        (q', has_next_message) \<Rightarrow>
          mset (heap q') = add_mset (user_message 7 2) (mset (heap example_queue)) \<and>
          sorted (map GetSequenceNum (heap q')) \<and>
          next_sequence_num q' = next_sequence_num example_queue \<and>
          signalable q' = signalable example_queue \<and>
          (has_next_message \<longleftrightarrow>
             signalable example_queue \<and>
             Min (GetSequenceNum ` set (heap q')) = next_sequence_num example_queue)) \<and>
   fst (GetNextMessageIf None example_queue) = Some (user_message 7 1)"
proof -
  have h: "sorted (map GetSequenceNum (heap example_queue))"
    by (simp add: example_queue_def GetSequenceNum_def user_message_def
        NewInternalMessage_def)
  have e: "fst (GetNextMessageIf None example_queue) = Some (user_message 7 1)"
    by (simp add: example_queue_def GetNextMessageIf_def GetSequenceNum_def user_message_def
        NewInternalMessage_def)
  show ?thesis
    using h MessageQueue_in_order [OF h, of None "user_message 7 2"] e
    by (elim conjE) (intro conjI; assumption)
qed

section \<open>ClosePort\<close>

text \<open>
  Claim C6. \<^verbatim>\<open>ClosePort\<close> on a port whose state is not \<open>kReceiving\<close> returns
  \<open>ERROR_PORT_STATE_UNEXPECTED\<close> and leaves the node as it was. On a receiving
  port it returns \<open>OK\<close>; the port object is then in state \<open>kClosed\<close>, one
  message has been forwarded, an \<open>ObserveClosure\<close> to the port's peer that
  carries \<open>next_sequence_num_to_send - 1\<close>, and the port's name is no longer
  in the node's map. Nothing else changes.
\<close>

theorem ClosePort_effect:
  assumes "store n (ref_port port_ref) = Some port" and "\<not> locked port"
  shows "ClosePort n port_ref =
     (if state port \<noteq> kReceiving then Inr (ERROR_PORT_STATE_UNEXPECTED, n)
      else Inr (OK,
        n\<lparr>store := (store n)(ref_port port_ref \<mapsto> port\<lparr>state := kClosed\<rparr>),
          forwarded := forwarded n @
            [(peer_node_name port,
              NewInternalMessage (peer_port_name port) kObserveClosure empty_proxy_data
                (next_sequence_num_to_send port - 1))],
          node_ports := (node_ports n)(ref_name port_ref := None)\<rparr>))"
  using assms
  by (simp add: ClosePort_def lock_guard_def update_port_def ForwardMessage_def ErasePort_def
      Let_def)

theorem ClosePort_effect_witness:
  "store (example_node example_port) (ref_port example_ref) = Some example_port \<and>
   \<not> locked example_port \<and>
   ClosePort (example_node example_port) example_ref =
     Inr (OK,
       (example_node (example_port\<lparr>state := kClosed\<rparr>))
         \<lparr>forwarded := [(2, NewInternalMessage 20 kObserveClosure empty_proxy_data 4)],
          node_ports := Map.empty\<rparr>)"
  using ClosePort_effect [of "example_node example_port" example_ref example_port]
  by (simp add: example_defs)

section \<open>SendMessage refuses a message that carries its own port\<close>

text \<open>
  Claim C7. When the array of transferred ports of the message contains the
  name of the sending port, \<^verbatim>\<open>SendMessage\<close> returns
  \<open>ERROR_PORT_CANNOT_SEND_SELF\<close> and the node is as before: the port keeps its
  state, its peer and its \<open>next_sequence_num_to_send\<close>.
\<close>

theorem SendMessage_self:
  assumes "ref_name port_ref \<in> set (port_names message)"
  shows "SendMessage n port_ref message = Inr (ERROR_PORT_CANNOT_SEND_SELF, n)"
  using assms by (simp add: SendMessage_def)

theorem SendMessage_self_witness:
  "ref_name example_ref \<in> set (port_names (message_with_ports 0 [11, 10])) \<and>
   SendMessage (example_node example_port) example_ref (message_with_ports 0 [11, 10]) =
     Inr (ERROR_PORT_CANNOT_SEND_SELF, example_node example_port)"
  using SendMessage_self [of example_ref "message_with_ports 0 [11, 10]"
      "example_node example_port"]
  by (simp add: example_ref_def message_with_ports_def port_names_def)

section \<open>ObserveProxy\<close>

text \<open>
  Claim C2 says of a port that is itself a proxy and whose peer is the proxy of
  the event that it replies with an \<open>ObserveProxyAck\<close> and stores a deferred
  \<open>ObserveProxy\<close>. On such a port the code forwards nothing, and the message
  it stores is the \<open>ObserveProxyAck\<close> with the invalid sequence number.
\<close>

theorem OnObserveProxy_proxy_counterexample:
  "OnObserveProxy (example_node (example_port\<lparr>state := kProxying\<rparr>)) 10 example_event =
     Inr (OK,
       example_node
         (example_port
            \<lparr>state := kProxying,
             send_on_proxy_removal :=
               Some (2, NewInternalMessage 20 kObserveProxyAck empty_proxy_data 0)\<rparr>)) \<and>
   forwarded
     (example_node
        (example_port
           \<lparr>state := kProxying,
            send_on_proxy_removal :=
              Some (2, NewInternalMessage 20 kObserveProxyAck empty_proxy_data 0)\<rparr>)) = [] \<and>
   header_type (NewInternalMessage 20 kObserveProxyAck empty_proxy_data (0 :: 64 word))
     \<noteq> kObserveProxy"
  by (simp add: OnObserveProxy_def GetPort_def lock_guard_def update_port_def
      kInvalidSequenceNum_def example_event_def example_defs)

text \<open>
  Claim C2, amended. \<^verbatim>\<open>OnObserveProxy\<close> on an existing port returns \<open>OK\<close>.
  If the port's peer is the proxy of the event and the port is receiving, its
  peer becomes the event's \<open>proxy_to\<close> identity and an \<open>ObserveProxyAck\<close>
  with \<open>next_sequence_num_to_send - 1\<close> is forwarded to the proxy. If the peer
  is the proxy and the port is not receiving, nothing is forwarded; the port
  stores in \<open>send_on_proxy_removal\<close> an \<open>ObserveProxyAck\<close> with the invalid
  sequence number, addressed to the proxy. If the peer is not the proxy, the
  event is forwarded unchanged to the port's peer.
\<close>

theorem OnObserveProxy_effect:
  assumes "node_ports n port_name = Some a" and "store n a = Some port"
    and "\<not> locked port"
  shows "OnObserveProxy n port_name event =
     Inr (OK,
       if peer_node_name port = proxy_node_name event \<and>
          peer_port_name port = proxy_port_name event
       then
         if state port = kReceiving then
           n\<lparr>store := (store n)(a \<mapsto>
                  port\<lparr>peer_node_name := proxy_to_node_name event,
                       peer_port_name := proxy_to_port_name event\<rparr>),
             forwarded := forwarded n @
               [(proxy_node_name event,
                 NewInternalMessage (proxy_port_name event) kObserveProxyAck
                   empty_proxy_data (next_sequence_num_to_send port - 1))]\<rparr>
         else
           n\<lparr>store := (store n)(a \<mapsto>
                  port\<lparr>send_on_proxy_removal :=
                         Some (proxy_node_name event,
                               NewInternalMessage (proxy_port_name event) kObserveProxyAck
                                 empty_proxy_data kInvalidSequenceNum)\<rparr>)\<rparr>
       else
         n\<lparr>forwarded := forwarded n @
             [(peer_node_name port,
               NewInternalMessage (peer_port_name port) kObserveProxy event 0)]\<rparr>)"
  using assms
  by (simp add: OnObserveProxy_def GetPort_def lock_guard_def update_port_def
      ForwardMessage_def Let_def)

theorem OnObserveProxy_effect_witness:
  "node_ports (example_node example_port) 10 = Some 0 \<and>
   store (example_node example_port) 0 = Some example_port \<and>
   \<not> locked example_port \<and>
   OnObserveProxy (example_node example_port) 10 example_event =
     Inr (OK,
       (example_node (example_port\<lparr>peer_node_name := 3, peer_port_name := 30\<rparr>))
         \<lparr>forwarded := [(2, NewInternalMessage 20 kObserveProxyAck empty_proxy_data 4)]\<rparr>)"
  using OnObserveProxy_effect [of "example_node example_port" 10 0 example_port example_event]
  by (simp add: example_event_def example_defs)

section \<open>ObserveProxyAck\<close>

text \<open>
  Claim C1 says the proxy is removed exactly when the queue's next expected
  sequence number exceeds \<open>last_sequence_num_to_receive\<close>. A proxy whose queue
  expects 5 and which is told that 2 is the last number stays in the map.
\<close>

theorem OnObserveProxyAck_exceeds_counterexample:
  "OnObserveProxyAck (example_node (proxy_port 5)) 10 2 =
     Inr (OK,
       example_node
         ((proxy_port 5)\<lparr>remove_proxy_on_last_message := True,
                          last_sequence_num_to_receive := 2\<rparr>)) \<and>
   next_sequence_num (message_queue (proxy_port 5)) > 2 \<and>
   node_ports
     (example_node
        ((proxy_port 5)\<lparr>remove_proxy_on_last_message := True,
                         last_sequence_num_to_receive := 2\<rparr>)) 10 = Some 0"
  by (simp add: OnObserveProxyAck_def GetPort_def lock_guard_def update_port_def
      MaybeRemoveProxy_Locked_def CanAcceptMoreMessages_def OOPS_def
      kInvalidSequenceNum_def proxy_port_def example_defs)

text \<open>
  Claim C1, amended. On a proxying port, \<^verbatim>\<open>OnObserveProxyAck\<close> with a valid
  sequence number returns \<open>OK\<close>, sets \<open>remove_proxy_on_last_message\<close> and
  sets \<open>last_sequence_num_to_receive\<close> to that number. The proxy is removed
  exactly when that number is one less than the queue's next expected sequence
  number: the name leaves the map and the message of
  \<open>send_on_proxy_removal\<close>, if there is one, is forwarded once. Otherwise the
  node is unchanged except for the two fields.
\<close>

theorem OnObserveProxyAck_effect:
  assumes "node_ports n port_name = Some a" and "store n a = Some port"
    and "\<not> locked port" and "state port = kProxying"
    and "last_num \<noteq> kInvalidSequenceNum"
  shows "OnObserveProxyAck n port_name last_num =
     Inr (OK,
       if last_num = next_sequence_num (message_queue port) - 1 then
         n\<lparr>store := (store n)(a \<mapsto>
                port\<lparr>remove_proxy_on_last_message := True,
                     last_sequence_num_to_receive := last_num\<rparr>),
           node_ports := (node_ports n)(port_name := None),
           forwarded := forwarded n @
             (case send_on_proxy_removal port of
                None \<Rightarrow> []
              | Some (to_node, message) \<Rightarrow> [(to_node, message)])\<rparr>
       else
         n\<lparr>store := (store n)(a \<mapsto>
                port\<lparr>remove_proxy_on_last_message := True,
                     last_sequence_num_to_receive := last_num\<rparr>)\<rparr>)"
  using assms
  by (simp add: OnObserveProxyAck_def GetPort_def lock_guard_def update_port_def
      MaybeRemoveProxy_Locked_def CanAcceptMoreMessages_def ErasePort_def ForwardMessage_def
      Let_def split: option.splits)

theorem OnObserveProxyAck_effect_witness:
  "node_ports (example_node (proxy_port 5)) 10 = Some 0 \<and>
   store (example_node (proxy_port 5)) 0 = Some (proxy_port 5) \<and>
   \<not> locked (proxy_port 5) \<and> state (proxy_port 5) = kProxying \<and>
   (4 :: 64 word) \<noteq> kInvalidSequenceNum \<and>
   OnObserveProxyAck (example_node (proxy_port 5)) 10 4 =
     Inr (OK,
       (example_node
          ((proxy_port 5)\<lparr>remove_proxy_on_last_message := True,
                           last_sequence_num_to_receive := 4\<rparr>))
         \<lparr>node_ports := Map.empty,
          forwarded := [(4, NewInternalMessage 40 kObserveProxyAck empty_proxy_data 0)]\<rparr>)"
  using OnObserveProxyAck_effect [of "example_node (proxy_port 5)" 10 0 "proxy_port 5" 4]
  by (simp add: kInvalidSequenceNum_def proxy_port_def example_defs)


section \<open>SendMessage when an embedded port cannot be taken\<close>

text \<open>
  Claim C5. Port 10 sends a message that carries ports 11 and 12; port 11 is
  receiving and port 12 is buffering. The call returns
  \<open>ERROR_PORT_STATE_UNEXPECTED\<close>, the counter of port 10 is back at its value
  and no port has changed state, peer or name, but the mutex of port 11 is still
  held: the loop that should unlock the ports locked so far unlocks the last
  one each time.
\<close>

theorem SendMessage_leaves_port_locked:
  "SendMessage
     (three_ports example_port example_port (example_port\<lparr>state := kBuffering\<rparr>))
     example_ref (message_with_ports 0 [11, 12]) =
   Inr (ERROR_PORT_STATE_UNEXPECTED,
        three_ports example_port (example_port\<lparr>locked := True\<rparr>)
          (example_port\<lparr>state := kBuffering\<rparr>))"
  by (simp add: SendMessage_def WillSendMessage_Locked_def lock_guard_def GetPort_def
      update_port_def port_names_def message_with_ports_def three_ports_def Let_def
      example_defs fun_eq_iff)

text \<open>
  The counter of the sending port is decremented on the error path whether or
  not it was incremented: a message that already carries a sequence number
  leaves it one below its value.
\<close>

theorem SendMessage_rollback_below:
  "SendMessage
     (three_ports example_port (example_port\<lparr>state := kBuffering\<rparr>) example_port)
     example_ref ((message_with_ports 0 [11])\<lparr>sequence_num := 9\<rparr>) =
   Inr (ERROR_PORT_STATE_UNEXPECTED,
        three_ports (example_port\<lparr>next_sequence_num_to_send := 4\<rparr>)
          (example_port\<lparr>state := kBuffering\<rparr>) example_port)"
  by (simp add: SendMessage_def WillSendMessage_Locked_def lock_guard_def GetPort_def
      update_port_def port_names_def message_with_ports_def three_ports_def Let_def
      example_defs fun_eq_iff)

section \<open>Sequence numbers of forwarded messages\<close>

text \<open>
  Claim C10. A message that passes through \<^verbatim>\<open>WillSendMessage_Locked\<close> with a
  sequence number other than 0 keeps it, whatever the function returns, and
  when it returns \<open>OK\<close> the sending port's \<open>next_sequence_num_to_send\<close> is
  as before; a message whose sequence number is 0 is stamped with the port's
  \<open>next_sequence_num_to_send\<close>, which after \<open>OK\<close> is one higher. When \<^verbatim>\<open>ForwardMessages_Locked\<close> has forwarded the in-order
  messages of a queue, none of them numbered 0, the port's
  \<open>next_sequence_num_to_send\<close> is as before and the messages forwarded carry
  the sequence numbers they were queued with.
\<close>

theorem sequence_number_stamping:
  assumes "store n a = Some port"
  shows
    "(\<forall>r message' ports n'.
        WillSendMessage_Locked n a port_name message = Inr (r, message', ports, n') \<longrightarrow>
        sequence_num message' =
          (if sequence_num message = 0 then next_sequence_num_to_send port
           else sequence_num message) \<and>
        (r = OK \<longrightarrow>
         map_option next_sequence_num_to_send (store n' a) =
           Some (if sequence_num message = 0 then next_sequence_num_to_send port + 1
                 else next_sequence_num_to_send port))) \<and>
     (\<forall>n'.
        ForwardMessages_Locked n a port_name = Inr (OK, n') \<and>
        (\<forall>m \<in> set (in_order (next_sequence_num (message_queue port))
                        (heap (message_queue port))). sequence_num m \<noteq> 0) \<longrightarrow>
        map_option next_sequence_num_to_send (store n' a) =
          Some (next_sequence_num_to_send port) \<and>
        map (\<lambda>(to_node, m). sequence_num m) (drop (length (forwarded n)) (forwarded n')) =
          map sequence_num
            (in_order (next_sequence_num (message_queue port)) (heap (message_queue port))))"
proof (intro conjI allI impI)
  fix r message' ports n'
  assume w: "WillSendMessage_Locked n a port_name message = Inr (r, message', ports, n')"
  show "sequence_num message' =
          (if sequence_num message = 0 then next_sequence_num_to_send port
           else sequence_num message)"
    using WillSendMessage_Locked_sequence_num [OF w assms] .
  assume "r = OK"
  then show "map_option next_sequence_num_to_send (store n' a) =
          Some (if sequence_num message = 0 then next_sequence_num_to_send port + 1
                else next_sequence_num_to_send port)"
    using WillSendMessage_Locked_sender [OF w assms] by simp
next
  fix n'
  let ?taken = "in_order (next_sequence_num (message_queue port)) (heap (message_queue port))"
  assume "ForwardMessages_Locked n a port_name = Inr (OK, n') \<and>
    (\<forall>m \<in> set ?taken. sequence_num m \<noteq> 0)"
  then have f: "ForwardMessages_Locked n a port_name = Inr (OK, n')"
    and nz: "\<forall>m \<in> set ?taken. sequence_num m \<noteq> 0"
    by simp_all
  from ForwardMessages_Locked_OK [OF f assms] obtain out where
    st: "store n' a =
       Some (port\<lparr>message_queue := drained (message_queue port),
               next_sequence_num_to_send :=
                 next_sequence_num_to_send port + of_nat (unstamped ?taken)\<rparr>)"
    and fw: "forwarded n' = forwarded n @ map (Pair (peer_node_name port)) out"
    and la: "list_all2 (forwarded_as (peer_port_name port)) ?taken out"
    by blast
  have "unstamped ?taken = 0"
    using nz by (simp add: unstamped_def)
  with st show "map_option next_sequence_num_to_send (store n' a) =
          Some (next_sequence_num_to_send port)"
    by simp
  have "map sequence_num out = map sequence_num ?taken"
    using la nz by (rule forwarded_as_sequence_nums)
  with fw show "map (\<lambda>(to_node, m). sequence_num m) (drop (length (forwarded n)) (forwarded n')) =
          map sequence_num ?taken"
    by (simp add: comp_def)
qed


text \<open>A proxy whose queue holds messages 3, 4 and 6 and expects 3 forwards 3 and 4.\<close>

lemma forward_example:
  "ForwardMessages_Locked (example_node (queued_port kProxying)) 0 10 =
     Inr (OK,
       (example_node
          ((queued_port kProxying)
             \<lparr>message_queue :=
                \<lparr>heap = [user_message 10 6], next_sequence_num = 5, signalable = True\<rparr>\<rparr>))
         \<lparr>forwarded := [(2, user_message 20 3), (2, user_message 20 4)]\<rparr>)"
  apply (subst ForwardMessages_Locked.simps)
  apply (simp add: queued_port_def user_message_def example_defs GetNextMessageIf_def
      GetSequenceNum_def WillSendMessage_Locked_def update_port_def ForwardMessage_def)
  apply (subst ForwardMessages_Locked.simps)
  apply (simp add: queued_port_def user_message_def example_defs GetNextMessageIf_def
      GetSequenceNum_def WillSendMessage_Locked_def update_port_def ForwardMessage_def)
  apply (subst ForwardMessages_Locked.simps)
  apply (simp add: queued_port_def user_message_def example_defs GetNextMessageIf_def
      GetSequenceNum_def WillSendMessage_Locked_def update_port_def ForwardMessage_def)
  done

theorem sequence_number_stamping_witness:
  "store (example_node (queued_port kProxying)) 0 = Some (queued_port kProxying) \<and>
   WillSendMessage_Locked (example_node (queued_port kProxying)) 0 10 (user_message 0 7) =
     Inr (OK, user_message 20 7, [], example_node (queued_port kProxying)) \<and>
   WillSendMessage_Locked (example_node (queued_port kProxying)) 0 10 (user_message 0 0) =
     Inr (OK, user_message 20 5, [],
          example_node ((queued_port kProxying)\<lparr>next_sequence_num_to_send := 6\<rparr>)) \<and>
   map_option next_sequence_num_to_send
     (store (snd (projr (ForwardMessages_Locked (example_node (queued_port kProxying)) 0 10))) 0)
     = Some 5 \<and>
   map (\<lambda>(to_node, m). sequence_num m)
     (forwarded (snd (projr (ForwardMessages_Locked (example_node (queued_port kProxying)) 0 10))))
     = [3, 4]"
proof -
  let ?n = "example_node (queued_port kProxying)"
  have s: "store ?n 0 = Some (queued_port kProxying)"
    by (simp add: example_node_def)
  have w1: "WillSendMessage_Locked ?n 0 10 (user_message 0 7) =
      Inr (OK, user_message 20 7, [], ?n)"
    by (simp add: WillSendMessage_Locked_def queued_port_def user_message_def example_defs)
  have w2: "WillSendMessage_Locked ?n 0 10 (user_message 0 0) =
      Inr (OK, user_message 20 5, [],
           example_node ((queued_port kProxying)\<lparr>next_sequence_num_to_send := 6\<rparr>))"
    by (simp add: WillSendMessage_Locked_def update_port_def queued_port_def user_message_def
        example_defs)
  note t = sequence_number_stamping [OF s, of 10]
  have nz: "\<forall>m \<in> set (in_order (next_sequence_num (message_queue (queued_port kProxying)))
      (heap (message_queue (queued_port kProxying)))). sequence_num m \<noteq> 0"
    by (simp add: queued_port_def user_message_def GetSequenceNum_def example_defs)
  from t [THEN conjunct2, rule_format, OF conjI [OF forward_example nz]]
  have "map_option next_sequence_num_to_send
     (store (snd (projr (ForwardMessages_Locked ?n 0 10))) 0) = Some 5"
    and "map (\<lambda>(to_node, m). sequence_num m)
     (forwarded (snd (projr (ForwardMessages_Locked ?n 0 10)))) = [3, 4]"
    unfolding forward_example
    by (simp_all add: queued_port_def user_message_def GetSequenceNum_def example_defs)
  with s w1 w2 show ?thesis by simp
qed


section \<open>PortAccepted\<close>





section \<open>A user message for an unknown port\<close>




section \<open>GetMessage after the peer has closed\<close>

text \<open>
  Port 10 expects message 3. Messages 3 and 4 arrive, then \<open>ObserveClosure\<close>
  with 3 as the last sequence number, and the reader takes message 3.
\<close>

lemma later_message_reachable:
  "AcceptMessage (example_node example_port) (user_message 10 3) =
     Inr (OK, notified [example_ref]
       (example_port\<lparr>message_queue :=
          \<lparr>heap = [user_message 10 3], next_sequence_num = 3, signalable = True\<rparr>\<rparr>)) \<and>
   AcceptMessage
     (notified [example_ref]
       (example_port\<lparr>message_queue :=
          \<lparr>heap = [user_message 10 3], next_sequence_num = 3, signalable = True\<rparr>\<rparr>))
     (user_message 10 4) =
     Inr (OK, notified [example_ref, example_ref]
       (example_port\<lparr>message_queue :=
          \<lparr>heap = [user_message 10 3, user_message 10 4], next_sequence_num = 3,
           signalable = True\<rparr>\<rparr>)) \<and>
   AcceptMessage
     (notified [example_ref, example_ref]
       (example_port\<lparr>message_queue :=
          \<lparr>heap = [user_message 10 3, user_message 10 4], next_sequence_num = 3,
           signalable = True\<rparr>\<rparr>))
     (NewInternalMessage 10 kObserveClosure empty_proxy_data 3) =
     Inr (OK, notified [example_ref, example_ref, example_ref] (peer_closed_port 3 3 [user_message 10 3, user_message 10 4])) \<and>
   GetMessage (notified [example_ref, example_ref, example_ref] (peer_closed_port 3 3 [user_message 10 3, user_message 10 4]))
     example_ref =
     Inr (OK, Some (user_message 10 3),
          notified [example_ref, example_ref, example_ref] (peer_closed_port 3 4 [user_message 10 4]))"
  by (simp add: AcceptMessage_def OnUserMessage_def OnObserveClosure_def GetMessage_def
      GetMessageIf_def GetPort_def lock_guard_def CanAcceptMoreMessages_def
      AcceptMessage_queue_def push_heap_def GetSequenceNum_def GetNextMessageIf_def
      update_port_def PortStatusChanged_def port_names_def notified_def
      peer_closed_port_def user_message_def example_defs Let_def)

text \<open>
  Claim C3 says that \<open>ERROR_PORT_PEER_CLOSED\<close> is returned exactly when the
  queue cannot produce another in-order message and the expected sequence
  numbers have been drained. In the state just reached the queue holds message
  4, which is the message it expects next, and \<^verbatim>\<open>GetMessage\<close> returns
  \<open>ERROR_PORT_PEER_CLOSED\<close>.
\<close>

theorem GetMessage_closed_counterexample:
  "GetMessage (notified [example_ref, example_ref, example_ref] (peer_closed_port 3 4 [user_message 10 4])) example_ref =
     Inr (ERROR_PORT_PEER_CLOSED, None,
          notified [example_ref, example_ref, example_ref] (peer_closed_port 3 4 [user_message 10 4])) \<and>
   fst (GetNextMessageIf None (message_queue (peer_closed_port 3 4 [user_message 10 4]))) =
     Some (user_message 10 4)"
  by (simp add: GetMessage_def GetMessageIf_def lock_guard_def CanAcceptMoreMessages_def
      GetNextMessageIf_def GetSequenceNum_def notified_def peer_closed_port_def
      user_message_def example_defs)

text \<open>
  Claim C3, amended. On a receiving port that has observed closure with last
  sequence number \<open>k\<close>, \<^verbatim>\<open>GetMessageIf\<close> (and \<^verbatim>\<open>GetMessage\<close>, which is
  \<^verbatim>\<open>GetMessageIf\<close> without a selector) returns \<open>ERROR_PORT_PEER_CLOSED\<close>
  exactly when the queue's next expected sequence number is \<open>k + 1\<close>,
  whatever the queue holds. Until then it returns \<open>OK\<close>, with the in-order
  head of the queue if there is one and the selector accepts it. When a reader's
  calls reach the first \<open>ERROR_PORT_PEER_CLOSED\<close>, they have handed out
  exactly \<open>k - f + 1\<close> messages (in machine arithmetic), numbered \<open>f\<close>,
  \<open>f + 1\<close>, ..., where \<open>f\<close> is the sequence number the queue expected
  at the start.
\<close>

theorem GetMessage_after_closure:
  assumes "store n (ref_port port_ref) = Some port" and "\<not> locked port"
    and "state port = kReceiving" and "peer_closed port"
    and "last_sequence_num_to_receive port = k"
  shows
    "GetMessageIf n port_ref selector =
       (if next_sequence_num (message_queue port) = k + 1
        then Inr (ERROR_PORT_PEER_CLOSED, None, n)
        else
          (case GetNextMessageIf selector (message_queue port) of
             (None, q) \<Rightarrow> Inr (OK, None, n)
           | (Some message, q) \<Rightarrow>
               (case signalize_ports (port_names message)
                       (update_port (ref_port port_ref) (\<lambda>p. p\<lparr>message_queue := q\<rparr>) n) of
                  Inl f \<Rightarrow> Inl f
                | Inr n2 \<Rightarrow> Inr (OK, Some message, n2)))) \<and>
     GetMessage n port_ref = GetMessageIf n port_ref None \<and>
     (\<forall>selectors messages n'.
        get_messages n port_ref selectors = Inr (ERROR_PORT_PEER_CLOSED, messages, n') \<longrightarrow>
        length messages = unat (k + 1 - next_sequence_num (message_queue port)) \<and>
        map sequence_num messages =
          map (\<lambda>i. next_sequence_num (message_queue port) + of_nat i)
            [0..<length messages])"
  using GetMessageIf_peer_closed [OF assms(1-4), of selector]
    get_messages_until_closed [OF _ assms(1,3,4)] assms(5)
  by (simp add: GetMessage_def)

theorem GetMessage_after_closure_witness:
  "store (example_node (peer_closed_port 4 3 [user_message 10 3, user_message 10 4]))
     (ref_port example_ref) =
     Some (peer_closed_port 4 3 [user_message 10 3, user_message 10 4]) \<and>
   \<not> locked (peer_closed_port 4 3 [user_message 10 3, user_message 10 4]) \<and>
   state (peer_closed_port 4 3 [user_message 10 3, user_message 10 4]) = kReceiving \<and>
   peer_closed (peer_closed_port 4 3 [user_message 10 3, user_message 10 4]) \<and>
   last_sequence_num_to_receive (peer_closed_port 4 3 [user_message 10 3, user_message 10 4])
     = 4 \<and>
   get_messages (example_node (peer_closed_port 4 3 [user_message 10 3, user_message 10 4]))
     example_ref [None, None, None, None] =
     Inr (ERROR_PORT_PEER_CLOSED, [user_message 10 3, user_message 10 4],
          example_node (peer_closed_port 4 5 [])) \<and>
   length [user_message 10 3, user_message 10 4 :: 64 Message] =
     unat (4 + 1 - next_sequence_num
       (message_queue (peer_closed_port 4 3 [user_message 10 3, user_message 10 4])))"
proof -
  let ?p = "peer_closed_port 4 3 [user_message 10 3, user_message 10 4]"
  have h: "store (example_node ?p) (ref_port example_ref) = Some ?p" "\<not> locked ?p"
    "state ?p = kReceiving" "peer_closed ?p" "last_sequence_num_to_receive ?p = 4"
    by (simp_all add: peer_closed_port_def example_defs)
  have run: "get_messages (example_node ?p) example_ref [None, None, None, None] =
     Inr (ERROR_PORT_PEER_CLOSED, [user_message 10 3, user_message 10 4],
          example_node (peer_closed_port 4 5 []))"
    by (simp add: GetMessageIf_def lock_guard_def CanAcceptMoreMessages_def
        GetNextMessageIf_def GetSequenceNum_def update_port_def port_names_def
        peer_closed_port_def user_message_def example_defs)
  from GetMessage_after_closure [OF h, of None, THEN conjunct2, THEN conjunct2, rule_format,
      OF run]
  have "length [user_message 10 3, user_message 10 4 :: 64 Message] =
     unat (4 + 1 - next_sequence_num (message_queue ?p))"
    by simp
  with h run show ?thesis by simp
qed

end
